theory Spec2Isabelle
  imports Complex_Main "HOL-Library.Multiset"
begin

section \<open>Data model\<close>

text \<open>
  The record distribution engine (\<^verbatim>\<open>backend/utils/distributionEngine.js\<close>), the
  Distribution schema (\<^verbatim>\<open>backend/models/Distribution.js\<close>) and the two handlers
  \<^verbatim>\<open>updateRecordStatus\<close> and \<^verbatim>\<open>deleteDistribution\<close> of
  \<^verbatim>\<open>backend/controllers/distributionController.js\<close>.

  JavaScript numbers are modelled as exact numbers: counts and counters as \<open>nat\<close> or
  \<open>int\<close>, weights and scores as \<open>real\<close>. Where JavaScript would produce \<open>NaN\<close> or an
  infinity, the model returns \<open>None\<close>. \<^verbatim>\<open>new Date()\<close> is a parameter \<open>now\<close>, and the measured
  duration \<^verbatim>\<open>Date.now() - startTime\<close> is a parameter \<open>elapsed\<close>.
\<close>

datatype status = Pending | InProgress | Completed | Failed

text \<open>
  One row of work. The file processor produces \<open>firstName\<close>, \<open>phone\<close> and \<open>notes\<close>; the
  engine adds \<open>status\<close> and \<open>assignedAt\<close>, a status update may add \<open>completedAt\<close>, and
  redistribution adds the \<open>redistributed\<close> tag. An absent property is \<open>None\<close> (\<open>False\<close>
  for the tag).
\<close>

record task =
  firstName :: string
  phone :: string
  "notes" :: "string option"
  status :: "status option"
  assignedAt :: "nat option"
  completedAt :: "nat option"
  redistributed :: bool

text \<open>A user document of role agent: \<open>uid\<close> is \<^verbatim>\<open>_id\<close>.\<close>

record agent =
  uid :: string
  name :: string
  email :: string
  isActive :: bool
  assignedTasks :: int
  completedTasks :: int

text \<open>
  One agent's share. Only the weighted strategy writes the \<open>weight\<close> property.
\<close>

record group =
  agentId :: string
  agentName :: string
  agentEmail :: string
  assignedCount :: nat
  weight :: "real option"
  records :: "task list"

text \<open>
  The summary the engine computes. The first three fields are the ones the Distribution
  schema declares under \<^verbatim>\<open>summary\<close>; the engine's summary extends them.
\<close>

record stored_summary =
  totalAgentsAssigned :: nat
  averageRecordsPerAgent :: real
  distributionTime :: nat

record summary = stored_summary +
  totalRecordsDistributed :: nat
  minRecordsAssigned :: nat
  maxRecordsAssigned :: nat
  distributionVariance :: nat
  fairnessScore :: real

text \<open>Anything that carries the list of groups under \<^verbatim>\<open>agents\<close>.\<close>

record assignment =
  agents :: "group list"

text \<open>
  What \<^verbatim>\<open>distribute\<close> returns. \<open>summary\<close> is \<open>None\<close> when a field of it would not be a
  finite number. \<open>elapsedTime\<close> is the top-level \<^verbatim>\<open>distributionTime\<close> property.
\<close>

record plan = assignment +
  summary :: "summary option"
  strategy :: string
  elapsedTime :: nat

datatype error = EmptyInput | NoAgents | NoActiveAgents | TypeError

section \<open>JavaScript helpers\<close>

text \<open>\<^verbatim>\<open>xs.slice(i, j)\<close> for \<open>0 \<le> i \<le> j\<close>: the elements from \<open>i\<close> up to \<open>j\<close>, cut at the end.\<close>

definition slice :: "'a list \<Rightarrow> nat \<Rightarrow> nat \<Rightarrow> 'a list" where
  "slice xs i j = take (j - i) (drop i xs)"

text \<open>\<^verbatim>\<open>Math.round\<close>: the nearest integer, a half goes up.\<close>

definition Math_round :: "real \<Rightarrow> int" where
  "Math_round x = \<lfloor>x + 1 / 2\<rfloor>"

text \<open>\<^verbatim>\<open>{...record, status: 'pending', assignedAt: new Date()}\<close>\<close>

definition assignPending :: "nat \<Rightarrow> task \<Rightarrow> task" where
  "assignPending now r = r\<lparr>status := Some Pending, assignedAt := Some now\<rparr>"

section \<open>Equal distribution\<close>

text \<open>
  The \<^verbatim>\<open>for\<close> loop of \<^verbatim>\<open>equalDistribution\<close>, over the agents that are left, with the loop
  counter \<open>i\<close> and the running \<open>recordIndex\<close>.
\<close>

fun equalLoop :: "task list \<Rightarrow> nat \<Rightarrow> nat \<Rightarrow> nat \<Rightarrow> nat \<Rightarrow> nat \<Rightarrow> agent list \<Rightarrow> group list" where
  "equalLoop recs now recordsPerAgent remainingRecords i recordIndex [] = []"
| "equalLoop recs now recordsPerAgent remainingRecords i recordIndex (a # rest) =
     (let assignCount = recordsPerAgent + (if i < remainingRecords then 1 else 0);
          agentRecords = slice recs recordIndex (recordIndex + assignCount)
      in \<lparr>agentId = uid a, agentName = name a, agentEmail = email a,
           assignedCount = assignCount, weight = None,
           records = map (assignPending now) agentRecords\<rparr>
         # equalLoop recs now recordsPerAgent remainingRecords (i + 1)
             (recordIndex + assignCount) rest)"

text \<open>
  With no agent the loop body never runs and the result is empty, whatever the two
  quotients are (\<open>div\<close> and \<open>mod\<close> by zero are harmless here).
\<close>

definition equalDistribution :: "task list \<Rightarrow> agent list \<Rightarrow> nat \<Rightarrow> group list" where
  "equalDistribution recs ags now =
     (let agentsCount = length ags;
          recordsPerAgent = length recs div agentsCount;
          remainingRecords = length recs mod agentsCount
      in equalLoop recs now recordsPerAgent remainingRecords 0 0 ags)"

section \<open>Weights\<close>

definition calculateAgentPerformance :: "agent \<Rightarrow> real" where
  "calculateAgentPerformance a =
     (if assignedTasks a = 0 then 7 / 10
      else (let completionRate = real_of_int (completedTasks a) / real_of_int (assignedTasks a);
                experienceFactor = min 1 (real_of_int (assignedTasks a) / 100)
            in completionRate * (7 / 10) + experienceFactor * (3 / 10)))"

definition calculateWorkloadFactor :: "agent \<Rightarrow> real" where
  "calculateWorkloadFactor a =
     (let pendingTasks = assignedTasks a - completedTasks a
      in if pendingTasks \<le> 0 then 1
         else if pendingTasks \<ge> 50 then 1 / 10
         else max (1 / 10) (1 - real_of_int pendingTasks / 50))"

text \<open>
  An element of the list \<^verbatim>\<open>calculateAgentWeights\<close> returns; \<open>w_agentId\<close> and \<open>w_weight\<close> are
  its \<^verbatim>\<open>agentId\<close> and \<^verbatim>\<open>weight\<close> properties.
\<close>

record agentWeight =
  w_agentId :: string
  w_weight :: real
  performance :: real
  workloadFactor :: real

definition weighAgent :: "agent \<Rightarrow> agentWeight" where
  "weighAgent a =
     (let perf = calculateAgentPerformance a;
          wf = calculateWorkloadFactor a
      in \<lparr>w_agentId = uid a, w_weight = max (1 / 10) (perf * wf),
           performance = perf, workloadFactor = wf\<rparr>)"

text \<open>
  \<^verbatim>\<open>Array.prototype.sort\<close> is stable, and so is \<open>sort_key\<close>; the comparator
  \<^verbatim>\<open>(a, b) => b.weight - a.weight\<close> orders by descending weight, that is by ascending
  negated weight.
\<close>

definition calculateAgentWeights :: "agent list \<Rightarrow> agentWeight list" where
  "calculateAgentWeights ags = sort_key (\<lambda>w. - w_weight w) (map weighAgent ags)"

section \<open>Weighted distribution\<close>

text \<open>
  The \<^verbatim>\<open>for ... of agentWeights\<close> loop; it returns the groups and the final
  \<open>recordIndex\<close>. \<^verbatim>\<open>agents.find\<close> that finds nothing gives \<^verbatim>\<open>undefined\<close>, whose \<^verbatim>\<open>_id\<close>
  cannot be read. The rounded share is never negative (weights are positive), so it is
  kept as a \<open>nat\<close>.
\<close>

fun weightedLoop ::
  "task list \<Rightarrow> agent list \<Rightarrow> nat \<Rightarrow> real \<Rightarrow> nat \<Rightarrow> agentWeight list \<Rightarrow> error + (group list \<times> nat)" where
  "weightedLoop recs ags now totalWeight recordIndex [] = Inr ([], recordIndex)"
| "weightedLoop recs ags now totalWeight recordIndex (w # rest) =
     (case find (\<lambda>a. uid a = w_agentId w) ags of
        None \<Rightarrow> Inl TypeError
      | Some a \<Rightarrow>
          (let proportion = w_weight w / totalWeight;
               assignCount = nat (Math_round (real (length recs) * proportion));
               agentRecords = slice recs recordIndex (recordIndex + assignCount)
           in case weightedLoop recs ags now totalWeight (recordIndex + assignCount) rest of
                Inl e \<Rightarrow> Inl e
              | Inr (gs, finalIndex) \<Rightarrow>
                  Inr (\<lparr>agentId = uid a, agentName = name a, agentEmail = email a,
                        assignedCount = assignCount, weight = Some (w_weight w),
                        records = map (assignPending now) agentRecords\<rparr> # gs, finalIndex)))"

definition weightedDistribution :: "task list \<Rightarrow> agent list \<Rightarrow> nat \<Rightarrow> error + group list" where
  "weightedDistribution recs ags now =
     (let agentWeights = calculateAgentWeights ags;
          totalWeight = sum_list (map w_weight agentWeights)
      in case weightedLoop recs ags now totalWeight 0 agentWeights of
           Inl e \<Rightarrow> Inl e
         | Inr (distributedAgents, recordIndex) \<Rightarrow>
             if recordIndex < length recs then
               (case distributedAgents of
                  [] \<Rightarrow> Inl TypeError
                | topPerformer # others \<Rightarrow>
                    (let remainingRecords = drop recordIndex recs
                     in Inr (topPerformer
                              \<lparr>records := records topPerformer
                                          @ map (assignPending now) remainingRecords,
                               assignedCount := assignedCount topPerformer
                                          + length remainingRecords\<rparr> # others)))
             else Inr distributedAgents)"

section \<open>Priority distribution\<close>

text \<open>\<^verbatim>\<open>(a.notes || '').length\<close>\<close>

definition complexity :: "task \<Rightarrow> nat" where
  "complexity r = (case notes r of None \<Rightarrow> 0 | Some s \<Rightarrow> length s)"

text \<open>\<^verbatim>\<open>agent.records.push({...}); agent.assignedCount++\<close>\<close>

definition pushRecord :: "nat \<Rightarrow> group \<Rightarrow> task \<Rightarrow> group" where
  "pushRecord now g r =
     g\<lparr>records := records g @ [assignPending now r], assignedCount := assignedCount g + 1\<rparr>"

text \<open>
  The round-robin loop. With no group at all, \<^verbatim>\<open>distributedAgents[agentIndex]\<close> is
  \<^verbatim>\<open>undefined\<close> and the push raises.
\<close>

fun priorityLoop :: "nat \<Rightarrow> group list \<Rightarrow> nat \<Rightarrow> task list \<Rightarrow> error + group list" where
  "priorityLoop now gs agentIndex [] = Inr gs"
| "priorityLoop now gs agentIndex (r # rest) =
     (if agentIndex < length gs
      then priorityLoop now (gs[agentIndex := pushRecord now (gs ! agentIndex) r])
             ((agentIndex + 1) mod length gs) rest
      else Inl TypeError)"

definition emptyGroup :: "agent \<Rightarrow> group" where
  "emptyGroup a = \<lparr>agentId = uid a, agentName = name a, agentEmail = email a,
                   assignedCount = 0, weight = None, records = []\<rparr>"

definition priorityDistribution :: "task list \<Rightarrow> agent list \<Rightarrow> nat \<Rightarrow> error + group list" where
  "priorityDistribution recs ags now =
     (let sortedRecords = sort_key (\<lambda>r. - int (complexity r)) recs;
          sortedAgents = sort_key (\<lambda>a. - calculateAgentPerformance a) ags;
          distributedAgents = map emptyGroup sortedAgents
      in priorityLoop now distributedAgents 0 sortedRecords)"

section \<open>Summary\<close>

text \<open>\<^verbatim>\<open>Math.min(...xs)\<close> and \<^verbatim>\<open>Math.max(...xs)\<close>; of no argument they are infinite.\<close>

fun Math_min :: "nat list \<Rightarrow> nat option" where
  "Math_min [] = None"
| "Math_min (x # xs) = Some (fold min xs x)"

fun Math_max :: "nat list \<Rightarrow> nat option" where
  "Math_max [] = None"
| "Math_max (x # xs) = Some (fold max xs x)"

text \<open>
  With two or more counts that are all zero, the source divides zero by zero and
  \<^verbatim>\<open>Math.max(0, NaN)\<close> is \<^verbatim>\<open>NaN\<close>.
\<close>

definition calculateFairnessScore :: "nat list \<Rightarrow> real option" where
  "calculateFairnessScore agentCounts =
     (if length agentCounts \<le> 1 then Some 1
      else (let avg = real (sum_list agentCounts) / real (length agentCounts);
                variance = (\<Sum>c\<leftarrow>agentCounts. (real c - avg)\<^sup>2) / real (length agentCounts);
                standardDeviation = sqrt variance
            in if avg = 0 then None
               else Some (max 0 (1 - standardDeviation / avg))))"

definition generateSummary :: "group list \<Rightarrow> nat \<Rightarrow> nat \<Rightarrow> summary option" where
  "generateSummary distributedAgents totalRecords elapsed =
     (let agentCounts = map assignedCount distributedAgents
      in case (Math_min agentCounts, Math_max agentCounts, calculateFairnessScore agentCounts) of
           (Some minAssigned, Some maxAssigned, Some fairness) \<Rightarrow>
             (let avgAssigned = real totalRecords / real (length distributedAgents)
              in Some \<lparr>totalAgentsAssigned = length distributedAgents,
                       averageRecordsPerAgent = real_of_int (Math_round (avgAssigned * 100)) / 100,
                       distributionTime = elapsed,
                       totalRecordsDistributed = totalRecords,
                       minRecordsAssigned = minAssigned,
                       maxRecordsAssigned = maxAssigned,
                       distributionVariance = maxAssigned - minAssigned,
                       fairnessScore = fairness\<rparr>)
         | _ \<Rightarrow> None)"

section \<open>distribute\<close>

text \<open>
  \<^verbatim>\<open>this.strategies[strategy]\<close>. The object literal has the three own keys; every other
  key is looked up in \<^verbatim>\<open>Object.prototype\<close>, which holds \<^verbatim>\<open>constructor\<close> (the function
  \<^verbatim>\<open>Object\<close>), the accessor \<^verbatim>\<open>__proto__\<close> (an object, not a function) and ten methods.
  Every value found is truthy, so \<^verbatim>\<open>||\<close> falls back to \<^verbatim>\<open>equal\<close> only when nothing is found.
\<close>

datatype callee =
  EqualMethod | WeightedMethod | PriorityMethod | ObjectConstructor | ObjectPrototypeMember

definition objectPrototypeMembers :: "string list" where
  "objectPrototypeMembers =
     [''__proto__'', ''__defineGetter__'', ''__defineSetter__'', ''__lookupGetter__'',
      ''__lookupSetter__'', ''hasOwnProperty'', ''isPrototypeOf'', ''propertyIsEnumerable'',
      ''toString'', ''toLocaleString'', ''valueOf'']"

definition strategies :: "string \<Rightarrow> callee option" where
  "strategies key =
     (if key = ''equal'' then Some EqualMethod
      else if key = ''weighted'' then Some WeightedMethod
      else if key = ''priority'' then Some PriorityMethod
      else if key = ''constructor'' then Some ObjectConstructor
      else if key \<in> set objectPrototypeMembers then Some ObjectPrototypeMember
      else None)"

text \<open>
  What the call returns without raising: a plan, or, when the method called is
  \<^verbatim>\<open>Object\<close>, the record list itself in the place of the groups.
\<close>

datatype outcome = Plan plan | RecordsAsAgents "task list"

text \<open>
  \<^verbatim>\<open>Object.prototype\<close> is not callable; its methods are called with no receiver and raise
  (\<^verbatim>\<open>toString\<close> returns a string, and \<^verbatim>\<open>generateSummary\<close> then raises on its \<^verbatim>\<open>map\<close>).
\<close>

definition distribute ::
  "task list option \<Rightarrow> agent list option \<Rightarrow> string \<Rightarrow> nat \<Rightarrow> nat \<Rightarrow> error + outcome" where
  "distribute recordsArg agentsArg strategyName now elapsed =
     (case recordsArg of
        None \<Rightarrow> Inl EmptyInput
      | Some recs \<Rightarrow>
          if recs = [] then Inl EmptyInput
          else (case agentsArg of
                  None \<Rightarrow> Inl NoAgents
                | Some ags \<Rightarrow>
                    if ags = [] then Inl NoAgents
                    else (let activeAgents = filter isActive ags
                          in if activeAgents = [] then Inl NoActiveAgents
                             else (let distributionMethod =
                                         (case strategies strategyName of
                                            Some m \<Rightarrow> m
                                          | None \<Rightarrow> EqualMethod);
                                       finish = (\<lambda>distributedData.
                                         Inr (Plan \<lparr>agents = distributedData,
                                                    summary = generateSummary distributedData
                                                                (length recs) elapsed,
                                                    strategy = strategyName,
                                                    elapsedTime = elapsed\<rparr>))
                                   in case distributionMethod of
                                        EqualMethod \<Rightarrow>
                                          finish (equalDistribution recs activeAgents now)
                                      | WeightedMethod \<Rightarrow>
                                          (case weightedDistribution recs activeAgents now of
                                             Inl e \<Rightarrow> Inl e
                                           | Inr distributedData \<Rightarrow> finish distributedData)
                                      | PriorityMethod \<Rightarrow>
                                          (case priorityDistribution recs activeAgents now of
                                             Inl e \<Rightarrow> Inl e
                                           | Inr distributedData \<Rightarrow> finish distributedData)
                                      | ObjectConstructor \<Rightarrow> Inr (RecordsAsAgents recs)
                                      | ObjectPrototypeMember \<Rightarrow> Inl TypeError))))"

section \<open>Redistribution\<close>

definition currentLoad :: "group \<Rightarrow> nat" where
  "currentLoad g =
     length (filter (\<lambda>r. status r = Some Pending \<or> status r = Some InProgress) (records g))"

text \<open>
  \<^verbatim>\<open>targetAgent.records.push({...task, status: 'pending', assignedAt: new Date(),
  redistributed: true}); targetAgent.assignedCount++; targetAgent.currentLoad++\<close>
  on a group paired with its \<^verbatim>\<open>currentLoad\<close>.
\<close>

definition redistributedTask :: "nat \<Rightarrow> task \<Rightarrow> task" where
  "redistributedTask now t = t\<lparr>status := Some Pending, assignedAt := Some now, redistributed := True\<rparr>"

definition pushTask :: "nat \<Rightarrow> group \<times> nat \<Rightarrow> task \<Rightarrow> group \<times> nat" where
  "pushTask now target t =
     (case target of (g, load) \<Rightarrow>
        (g\<lparr>records := records g @ [redistributedTask now t],
           assignedCount := assignedCount g + 1\<rparr>, load + 1))"

fun redistributeLoop ::
  "nat \<Rightarrow> (group \<times> nat) list \<Rightarrow> nat \<Rightarrow> task list \<Rightarrow> error + (group \<times> nat) list" where
  "redistributeLoop now ws agentIndex [] = Inr ws"
| "redistributeLoop now ws agentIndex (t # rest) =
     (if agentIndex < length ws
      then redistributeLoop now (ws[agentIndex := pushTask now (ws ! agentIndex) t])
             ((agentIndex + 1) mod length ws) rest
      else Inl TypeError)"

text \<open>
  The groups are paired with their load, sorted by it (stable, ascending) and served in
  turn; the result carries the groups in the sorted order, without the load. The second
  parameter of the source, \<^verbatim>\<open>availableAgents\<close>, is never read.
\<close>

definition redistributeTasks ::
  "task list option \<Rightarrow> nat \<Rightarrow> 'a assignment_scheme \<Rightarrow> error + 'a assignment_scheme" where
  "redistributeTasks failedTasks now originalDistribution =
     (case failedTasks of
        None \<Rightarrow> Inr originalDistribution
      | Some ts \<Rightarrow>
          if ts = [] then Inr originalDistribution
          else (let agentWorkloads =
                      sort_key snd (map (\<lambda>g. (g, currentLoad g)) (agents originalDistribution))
                in case redistributeLoop now agentWorkloads 0 ts of
                     Inl e \<Rightarrow> Inl e
                   | Inr ws \<Rightarrow> Inr (originalDistribution\<lparr>agents := map fst ws\<rparr>)))"

section \<open>The Distribution document and the store\<close>

text \<open>
  The part of the schema the handlers below read or write: the groups, \<open>totalRecords\<close>
  and the three declared summary fields (\<open>storedSummary\<close> is the document's
  \<^verbatim>\<open>summary\<close>).
\<close>

record distribution = assignment +
  totalRecords :: nat
  storedSummary :: stored_summary

text \<open>The \<^verbatim>\<open>pre('save')\<close> hook of the schema.\<close>

definition pre_save :: "distribution \<Rightarrow> distribution" where
  "pre_save d =
     (if agents d \<noteq> [] then
        d\<lparr>storedSummary := (storedSummary d)
             \<lparr>totalAgentsAssigned := length (agents d),
              averageRecordsPerAgent :=
                real_of_int (Math_round (real (totalRecords d) / real (length (agents d))))\<rparr>\<rparr>
      else d)"


record store =
  users :: "string \<rightharpoonup> agent"
  distributions :: "string \<rightharpoonup> distribution"

text \<open>\<^verbatim>\<open>User.findByIdAndUpdate(id, {$inc: {assignedTasks: da, completedTasks: dc}})\<close>\<close>

definition incUser :: "(string \<rightharpoonup> agent) \<Rightarrow> string \<Rightarrow> int \<Rightarrow> int \<Rightarrow> (string \<rightharpoonup> agent)" where
  "incUser us i da dc =
     (case us i of
        None \<Rightarrow> us
      | Some u \<Rightarrow> us(i \<mapsto> u\<lparr>assignedTasks := assignedTasks u + da,
                              completedTasks := completedTasks u + dc\<rparr>))"

text \<open>\<^verbatim>\<open>xs.find(p)\<close>, as the position of what it returns.\<close>

fun findIndex :: "('a \<Rightarrow> bool) \<Rightarrow> 'a list \<Rightarrow> nat option" where
  "findIndex p [] = None"
| "findIndex p (x # xs) = (if p x then Some 0 else map_option Suc (findIndex p xs))"

datatype response = NotFound | NotAssigned | InvalidIndex | Updated task | Deleted

text \<open>
  The handler of \<^verbatim>\<open>PUT /api/distributions/:id/records/:recordIndex\<close>, for the user \<open>me\<close>
  (\<^verbatim>\<open>req.user._id\<close>). The route admits only the four status values.
\<close>

definition updateRecordStatus ::
  "store \<Rightarrow> nat \<Rightarrow> string \<Rightarrow> string \<Rightarrow> int \<Rightarrow> status \<Rightarrow> string option \<Rightarrow> response \<times> store" where
  "updateRecordStatus st now distributionId me recordIdx newStatus newNotes =
     (case distributions st distributionId of
        None \<Rightarrow> (NotFound, st)
      | Some d \<Rightarrow>
          (case findIndex (\<lambda>g. agentId g = me) (agents d) of
             None \<Rightarrow> (NotAssigned, st)
           | Some gi \<Rightarrow>
               (let agentData = agents d ! gi
                in if recordIdx < 0 \<or> recordIdx \<ge> int (length (records agentData))
                   then (InvalidIndex, st)
                   else (let k = nat recordIdx;
                             r0 = records agentData ! k;
                             oldStatus = status r0;
                             r1 = r0\<lparr>status := Some newStatus\<rparr>;
                             r2 = (case newNotes of
                                     None \<Rightarrow> r1
                                   | Some s \<Rightarrow> if s \<noteq> [] then r1\<lparr>notes := Some s\<rparr> else r1);
                             r3 = (if newStatus = Completed then r2\<lparr>completedAt := Some now\<rparr>
                                   else r2);
                             saved = pre_save
                               (d\<lparr>agents := (agents d)
                                     [gi := agentData\<lparr>records := (records agentData)[k := r3]\<rparr>]\<rparr>);
                             users' =
                               (if oldStatus \<noteq> Some Completed \<and> newStatus = Completed
                                then incUser (users st) me 0 1
                                else if oldStatus = Some Completed \<and> newStatus \<noteq> Completed
                                then incUser (users st) me 0 (- 1)
                                else users st)
                         in (Updated r3,
                             st\<lparr>distributions := (distributions st)(distributionId \<mapsto> saved),
                                users := users'\<rparr>)))))"



section \<open>Closed forms and sample data used in the statements\<close>

text \<open>
  The share of the agent at position \<open>k\<close> under the equal strategy, and the position of
  its first record, for a quotient \<open>n\<close> and a remainder \<open>r\<close>.
\<close>

definition equalShare :: "nat \<Rightarrow> nat \<Rightarrow> nat \<Rightarrow> nat" where
  "equalShare n r k = n + (if k < r then 1 else 0)"

definition equalStart :: "nat \<Rightarrow> nat \<Rightarrow> nat \<Rightarrow> nat" where
  "equalStart n r k = k * n + min k r"

definition sampleTask :: task where
  "sampleTask = \<lparr>firstName = ''Asha'', phone = ''+919876543210'', notes = Some ''call back'',
                  status = None, assignedAt = None, completedAt = None, redistributed = False\<rparr>"

definition sampleAgent :: "string \<Rightarrow> bool \<Rightarrow> int \<Rightarrow> int \<Rightarrow> agent" where
  "sampleAgent i act a c = \<lparr>uid = i, name = ''agent '' @ i, email = i @ ''@example.com'',
                            isActive = act, assignedTasks = a, completedTasks = c\<rparr>"

definition taskWith :: "status \<Rightarrow> nat option \<Rightarrow> task" where
  "taskWith s c = sampleTask\<lparr>status := Some s, assignedAt := Some 0, completedAt := c\<rparr>"

definition sampleGroup :: "string \<Rightarrow> nat \<Rightarrow> task list \<Rightarrow> group" where
  "sampleGroup i n rs = \<lparr>agentId = i, agentName = ''agent '' @ i, agentEmail = i @ ''@example.com'',
                         assignedCount = n, weight = None, records = rs\<rparr>"

definition sampleStore :: store where
  "sampleStore =
     \<lparr>users = [''a'' \<mapsto> sampleAgent ''a'' True 10 5, ''b'' \<mapsto> sampleAgent ''b'' True 3 0],
      distributions =
        [''d1'' \<mapsto> \<lparr>agents = [sampleGroup ''a'' 4 [taskWith Completed (Some 7), taskWith Pending None,
                                                  taskWith Completed (Some 8), taskWith Failed None],
                                 sampleGroup ''b'' 1 [taskWith InProgress None]],
                       totalRecords = 5,
                       storedSummary = \<lparr>totalAgentsAssigned = 2, averageRecordsPerAgent = 3,
                                        distributionTime = 12\<rparr>\<rparr>]\<rparr>"

text \<open>
  The signed step of \<open>completedTasks\<close> for a status change: \<open>+1\<close> into completed, \<open>-1\<close> out
  of completed, \<open>0\<close> otherwise.
\<close>

definition completedDelta :: "status option \<Rightarrow> status \<Rightarrow> int" where
  "completedDelta old new =
     (if old \<noteq> Some Completed \<and> new = Completed then 1
      else if old = Some Completed \<and> new \<noteq> Completed then - 1
      else 0)"

definition tripStore :: store where
  "tripStore =
     \<lparr>users = [''a'' \<mapsto> sampleAgent ''a'' True 5 2],
      distributions =
        [''d'' \<mapsto> \<lparr>agents = [sampleGroup ''a'' 1 [taskWith Pending None]],
                      totalRecords = 1,
                      storedSummary = \<lparr>totalAgentsAssigned = 1, averageRecordsPerAgent = 1,
                                       distributionTime = 0\<rparr>\<rparr>]\<rparr>"

definition tripStoreCompleted :: store where
  "tripStoreCompleted = snd (updateRecordStatus tripStore 1 ''d'' ''a'' 0 Completed None)"






definition twoNewAgents :: "agent list" where
  "twoNewAgents = [sampleAgent ''a'' True 0 0, sampleAgent ''b'' True 0 0]"

definition taskNamed :: "string \<Rightarrow> task" where
  "taskNamed n = sampleTask\<lparr>firstName := n\<rparr>"

text \<open>
  The common shape of the two round-robin loops (\<open>priorityLoop\<close>, \<open>redistributeLoop\<close>),
  for any way \<open>f\<close> of adding an item to a slot.
\<close>

fun roundRobin :: "('g \<Rightarrow> 't \<Rightarrow> 'g) \<Rightarrow> 'g list \<Rightarrow> nat \<Rightarrow> 't list \<Rightarrow> error + 'g list" where
  "roundRobin f gs i [] = Inr gs"
| "roundRobin f gs i (x # xs) =
     (if i < length gs then roundRobin f (gs[i := f (gs ! i) x]) ((i + 1) mod length gs) xs
      else Inl TypeError)"

text \<open>
  \<open>turns m i j xs\<close>: the items of \<open>xs\<close>, in order, that fall to slot \<open>j\<close> when the first
  item goes to slot \<open>i\<close> and the slots \<open>0, \<dots>, m - 1\<close> are served cyclically.
\<close>

fun turns :: "nat \<Rightarrow> nat \<Rightarrow> nat \<Rightarrow> 't list \<Rightarrow> 't list" where
  "turns m i j [] = []"
| "turns m i j (x # xs) = (if i = j then [x] else []) @ turns m ((i + 1) mod m) j xs"




definition pendingTasks :: "string \<Rightarrow> status \<Rightarrow> nat \<Rightarrow> task list" where
  "pendingTasks n s k = replicate k ((taskWith s None)\<lparr>firstName := n\<rparr>)"

definition loadedGroups :: "group list" where
  "loadedGroups =
     [sampleGroup ''a'' 5 (pendingTasks ''a'' Pending 5),
      sampleGroup ''b'' 2 (pendingTasks ''b'' Pending 1 @ [taskWith Completed (Some 3)]),
      sampleGroup ''c'' 3 (pendingTasks ''c'' InProgress 3)]"

definition failedTasks :: "task list" where
  "failedTasks = [(taskWith Failed None)\<lparr>firstName := ''f1''\<rparr>,
                  (taskWith Failed None)\<lparr>firstName := ''f2''\<rparr>]"

definition overcountedGroups :: "group list" where
  "overcountedGroups =
     [\<lparr>agentId = ''a'', agentName = ''agent a'', agentEmail = ''a@example.com'',
       assignedCount = 1, weight = Some (7 / 10), records = [assignPending 0 sampleTask]\<rparr>,
      \<lparr>agentId = ''b'', agentName = ''agent b'', agentEmail = ''b@example.com'',
       assignedCount = 1, weight = Some (7 / 10), records = []\<rparr>]"



text \<open>
  The rounded share of a weight \<open>w\<close> among \<open>n\<close> records, for a total weight \<open>tw\<close>:
  \<^verbatim>\<open>Math.round(n * (w / tw))\<close>.
\<close>

definition weightedShare :: "nat \<Rightarrow> real \<Rightarrow> agentWeight \<Rightarrow> nat" where
  "weightedShare n tw w = nat (Math_round (real n * (w_weight w / tw)))"

section \<open>Verified properties\<close>

subsection \<open>Sample data\<close>

lemma sampleAgent_sel [simp]:
  "uid (sampleAgent i act a c) = i" "isActive (sampleAgent i act a c) = act"
  "assignedTasks (sampleAgent i act a c) = a" "completedTasks (sampleAgent i act a c) = c"
  by (simp_all add: sampleAgent_def)

subsection \<open>Equal distribution\<close>

lemma equalLoop_length:
  "length (equalLoop recs now n r i idx ags) = length ags"
  by (induction ags arbitrary: i idx) (simp_all add: Let_def)

lemma equalStart_Suc: "equalStart n r (Suc k) = equalStart n r k + equalShare n r k"
  by (simp add: equalStart_def equalShare_def min_def)

lemma equalLoop_nth:
  "k < length ags \<Longrightarrow>
   equalLoop recs now n r i (equalStart n r i) ags ! k =
     \<lparr>agentId = uid (ags ! k), agentName = name (ags ! k), agentEmail = email (ags ! k),
      assignedCount = equalShare n r (i + k), weight = None,
      records = map (assignPending now)
                  (slice recs (equalStart n r (i + k)) (equalStart n r (i + k) + equalShare n r (i + k)))\<rparr>"
proof (induction ags arbitrary: i k)
  case Nil
  then show ?case by simp
next
  case (Cons a ags)
  show ?case
  proof (cases k)
    case 0
    then show ?thesis by (simp add: Let_def equalShare_def)
  next
    case (Suc k')
    with Cons.prems have "k' < length ags" by simp
    from Cons.IH[OF this, of "Suc i"] Suc show ?thesis
      by (simp add: Let_def equalStart_Suc equalShare_def)
  qed
qed

lemma equalStart_mono: "a \<le> b \<Longrightarrow> equalStart n r a \<le> equalStart n r b"
  unfolding equalStart_def by (intro add_mono mult_le_mono1 min.mono) simp_all

lemma equal_slice_in_range:
  assumes "k < m"
  shows "equalStart (len div m) (len mod m) k + equalShare (len div m) (len mod m) k \<le> len"
proof -
  from assms have "len mod m < m" by simp
  then have total: "equalStart (len div m) (len mod m) m = len"
    by (simp add: equalStart_def min_def)
  from assms have "equalStart (len div m) (len mod m) (Suc k)
                   \<le> equalStart (len div m) (len mod m) m"
    by (intro equalStart_mono) simp
  then show ?thesis by (simp add: equalStart_Suc total)
qed

lemma equalDistribution_length: "length (equalDistribution recs ags now) = length ags"
  by (simp add: equalDistribution_def Let_def equalLoop_length)

lemma equalDistribution_nth:
  assumes "k < length ags"
  shows "equalDistribution recs ags now ! k =
     \<lparr>agentId = uid (ags ! k), agentName = name (ags ! k), agentEmail = email (ags ! k),
      assignedCount = equalShare (length recs div length ags) (length recs mod length ags) k,
      weight = None,
      records = map (assignPending now)
                  (slice recs (equalStart (length recs div length ags) (length recs mod length ags) k)
                     (equalStart (length recs div length ags) (length recs mod length ags) k
                      + equalShare (length recs div length ags) (length recs mod length ags) k))\<rparr>"
proof -
  have "equalStart (length recs div length ags) (length recs mod length ags) 0 = 0"
    by (simp add: equalStart_def)
  with equalLoop_nth[OF assms, of recs now "length recs div length ags" "length recs mod length ags" 0]
  show ?thesis by (simp add: equalDistribution_def Let_def)
qed

lemma strategies_equal: "strategies ''equal'' = Some EqualMethod"
  by (simp add: strategies_def)

lemma distribute_equal:
  assumes "recs \<noteq> []" and "filter isActive ags \<noteq> []"
  shows "distribute (Some recs) (Some ags) ''equal'' now elapsed =
           Inr (Plan \<lparr>agents = equalDistribution recs (filter isActive ags) now,
                      summary = generateSummary (equalDistribution recs (filter isActive ags) now)
                                  (length recs) elapsed,
                      strategy = ''equal'', elapsedTime = elapsed\<rparr>)"
proof -
  from assms(2) have "ags \<noteq> []" by auto
  with assms show ?thesis
    by (simp add: distribute_def Let_def strategies_equal)
qed

text \<open>
  Claim C2. Under the strategy \<open>equal\<close>, with \<open>n\<close> the quotient and \<open>r\<close> the remainder of
  the number of records by the number of active agents, the active agents keep their
  input order; the agent at position \<open>i\<close> gets \<open>n + 1\<close> records when \<open>i < r\<close> and \<open>n\<close>
  otherwise, as the contiguous slice of the record list that starts where the slices of
  the agents before it end; so no two counts differ by more than one, whatever the
  records contain.
\<close>

theorem equal_shares:
  assumes "recs \<noteq> []" and "filter isActive ags \<noteq> []"
  shows "\<exists>p. distribute (Some recs) (Some ags) ''equal'' now elapsed = Inr (Plan p)
           \<and> (let act = filter isActive ags;
                   n = length recs div length act;
                   r = length recs mod length act
               in length (agents p) = length act
                \<and> (\<forall>i<length act.
                      agentId (agents p ! i) = uid (act ! i)
                    \<and> assignedCount (agents p ! i) = n + (if i < r then 1 else 0)
                    \<and> length (records (agents p ! i)) = n + (if i < r then 1 else 0)
                    \<and> records (agents p ! i) =
                        map (assignPending now)
                          (slice recs (i * n + min i r) (i * n + min i r + n + (if i < r then 1 else 0))))
                \<and> (\<forall>i<length act. \<forall>j<length act.
                      assignedCount (agents p ! i) \<le> assignedCount (agents p ! j) + 1))"
proof -
  let ?act = "filter isActive ags"
  have "length (slice recs (i * (length recs div length ?act) + min i (length recs mod length ?act))
                  (i * (length recs div length ?act) + min i (length recs mod length ?act)
                   + (length recs div length ?act)
                   + (if i < length recs mod length ?act then 1 else 0)))
        = length recs div length ?act + (if i < length recs mod length ?act then 1 else 0)"
    if "i < length ?act" for i
    using equal_slice_in_range[OF that, of "length recs"]
    by (simp add: slice_def equalStart_def equalShare_def)
  then show ?thesis
    unfolding distribute_equal[OF assms]
    by (simp add: Let_def equalDistribution_length equalDistribution_nth equalShare_def
          equalStart_def add.assoc)
qed

text \<open>
  Ten records over three active agents (a fourth, inactive one is skipped): the group
  sizes are 4, 3, 3 in the agents' input order.
\<close>

theorem equal_shares_witness:
  "\<exists>p. distribute (Some (replicate 10 sampleTask))
          (Some [sampleAgent ''a'' True 0 0, sampleAgent ''x'' False 0 0,
                 sampleAgent ''b'' True 0 0, sampleAgent ''c'' True 0 0]) ''equal'' 0 0 = Inr (Plan p)
     \<and> map agentId (agents p) = [''a'', ''b'', ''c'']
     \<and> map assignedCount (agents p) = [4, 3, 3]"
proof -
  let ?recs = "replicate 10 sampleTask"
  let ?ags = "[sampleAgent ''a'' True 0 0, sampleAgent ''x'' False 0 0,
               sampleAgent ''b'' True 0 0, sampleAgent ''c'' True 0 0]"
  have act: "filter isActive ?ags
             = [sampleAgent ''a'' True 0 0, sampleAgent ''b'' True 0 0, sampleAgent ''c'' True 0 0]"
    by simp
  have h1: "?recs \<noteq> []" by simp
  have h2: "filter isActive ?ags \<noteq> []" by simp
  from equal_shares[OF h1 h2, of 0 0] obtain p where
    p: "distribute (Some ?recs) (Some ?ags) ''equal'' 0 0 = Inr (Plan p)"
    and len: "length (agents p) = 3"
    and nth: "\<forall>i<3. agentId (agents p ! i)
                      = uid ([sampleAgent ''a'' True 0 0, sampleAgent ''b'' True 0 0,
                              sampleAgent ''c'' True 0 0] ! i)
                \<and> assignedCount (agents p ! i) = 3 + (if i < 1 then 1 else 0)"
    unfolding act by (auto simp: Let_def)
  from nth have "agentId (agents p ! 0) = ''a''" "agentId (agents p ! 1) = ''b''"
    "agentId (agents p ! 2) = ''c''" "assignedCount (agents p ! 0) = 4"
    "assignedCount (agents p ! 1) = 3" "assignedCount (agents p ! 2) = 3"
    by simp_all
  with len have "map agentId (agents p) = [''a'', ''b'', ''c'']"
    "map assignedCount (agents p) = [4, 3, 3]"
    by (simp_all add: list_eq_iff_nth_eq less_Suc_eq numeral_3_eq_3 del: One_nat_def)
       (auto simp: numeral_2_eq_2)
  with p show ?thesis by (intro exI[of _ p] conjI)
qed

subsection \<open>Deleting a distribution\<close>

lemma incUser_apply:
  "incUser us i da dc u =
     (if u = i then map_option (\<lambda>a. a\<lparr>assignedTasks := assignedTasks a + da,
                                       completedTasks := completedTasks a + dc\<rparr>) (us u)
      else us u)"
  by (simp add: incUser_def split: option.splits)




subsection \<open>Updating the status of a record\<close>

lemma findIndex_Some:
  "findIndex p xs = Some i \<Longrightarrow> i < length xs \<and> p (xs ! i)"
proof (induction xs arbitrary: i)
  case Nil
  then show ?case by simp
next
  case (Cons x xs)
  then show ?case by (cases i) (auto split: if_splits)
qed

lemma incUser_completed:
  "incUser us me 0 dc u =
     map_option (\<lambda>a. a\<lparr>completedTasks := completedTasks a + (if u = me then dc else 0)\<rparr>) (us u)"
  by (cases "us u") (auto simp: incUser_apply)

lemma map_option_same_user:
  "map_option (\<lambda>a::agent. a\<lparr>completedTasks := completedTasks a + 0\<rparr>) x = x"
  by (cases x) simp_all

text \<open>
  Claim C7, as the code has it. A status update that reaches a record of the caller's own
  group stores and returns that record with the new status. Its \<open>completedAt\<close> is the
  current time when the new status is completed, and is otherwise left as it was: leaving
  the completed status does not clear it. The caller's \<open>completedTasks\<close> goes up by one
  on a change into completed from another status, down by one on a change out of
  completed, and stays as it is otherwise; \<open>assignedTasks\<close> and every other user are
  untouched.
\<close>

theorem update_record_status:
  assumes d: "distributions st i = Some d"
    and gi: "findIndex (\<lambda>g. agentId g = me) (agents d) = Some gi"
    and k: "0 \<le> k" "k < int (length (records (agents d ! gi)))"
  shows "\<exists>r st' d'. updateRecordStatus st now i me k s nts = (Updated r, st')
     \<and> status r = Some s
     \<and> completedAt r = (if s = Completed then Some now
                        else completedAt (records (agents d ! gi) ! nat k))
     \<and> distributions st' i = Some d' \<and> records (agents d' ! gi) ! nat k = r
     \<and> (\<forall>u. users st' u =
            map_option (\<lambda>a. a\<lparr>completedTasks := completedTasks a
                 + (if u = me then completedDelta (status (records (agents d ! gi) ! nat k)) s
                    else 0)\<rparr>) (users st u))"
proof -
  from findIndex_Some[OF gi] have gil: "gi < length (agents d)" by simp
  from k have kl: "nat k < length (records (agents d ! gi))" by linarith
  have ps: "agents (pre_save x) = agents x" for x
    by (simp add: pre_save_def)
  show ?thesis
    using d gi k gil kl
    by (auto simp: updateRecordStatus_def Let_def ps completedDelta_def incUser_completed
          map_option_same_user option.map_ident split: option.splits)
qed


text \<open>
  The round trip: an agent with 5 assigned and 2 completed tasks has 3 completed after
  one record goes from pending to completed, and 2 again after it goes on to failed.
\<close>

theorem update_record_status_witness:
  "map_option completedTasks (users tripStore ''a'') = Some 2
   \<and> map_option completedTasks (users tripStoreCompleted ''a'') = Some 3
   \<and> map_option completedTasks
        (users (snd (updateRecordStatus tripStoreCompleted 2 ''d'' ''a'' 0 Failed None)) ''a'') = Some 2
   \<and> map_option assignedTasks
        (users (snd (updateRecordStatus tripStoreCompleted 2 ''d'' ''a'' 0 Failed None)) ''a'') = Some 5"
proof -
  let ?d = "\<lparr>agents = [sampleGroup ''a'' 1 [taskWith Pending None]], totalRecords = 1,
             storedSummary = \<lparr>totalAgentsAssigned = 1, averageRecordsPerAgent = 1,
                              distributionTime = 0\<rparr>\<rparr>"
  have d: "distributions tripStore ''d'' = Some ?d"
    by (simp add: tripStore_def)
  have gi: "findIndex (\<lambda>g. agentId g = ''a'') (agents ?d) = Some 0"
    by (simp add: sampleGroup_def)
  have k: "(0::int) \<le> 0" "0 < int (length (records (agents ?d ! 0)))"
    by (simp_all add: sampleGroup_def)
  have u0: "users tripStore ''a'' = Some (sampleAgent ''a'' True 5 2)"
    by (simp add: tripStore_def)
  from update_record_status[OF d gi k, of 1 Completed None] obtain r st' d' where
    1: "updateRecordStatus tripStore 1 ''d'' ''a'' 0 Completed None = (Updated r, st')"
      "distributions st' ''d'' = Some d'" "status r = Some Completed"
      "records (agents d' ! 0) ! nat 0 = r"
      "users st' ''a'' = Some ((sampleAgent ''a'' True 5 2)\<lparr>completedTasks := 3\<rparr>)"
    by (auto simp: u0 completedDelta_def sampleGroup_def taskWith_def)
  from 1 have st': "tripStoreCompleted = st'"
    by (simp add: tripStoreCompleted_def)
  have gi': "findIndex (\<lambda>g. agentId g = ''a'') (agents d') = Some 0"
    using 1(1,2) by (auto simp: updateRecordStatus_def tripStore_def Let_def sampleGroup_def pre_save_def)
  have k': "(0::int) \<le> 0" "0 < int (length (records (agents d' ! 0)))"
    using 1(1,2) by (auto simp: updateRecordStatus_def tripStore_def Let_def sampleGroup_def pre_save_def)
  from update_record_status[OF 1(2) gi' k', of 2 Failed None] 1(3,4,5)
  have "users (snd (updateRecordStatus st' 2 ''d'' ''a'' 0 Failed None)) ''a''
          = Some ((sampleAgent ''a'' True 5 2)\<lparr>completedTasks := 2\<rparr>)"
    by (auto simp: completedDelta_def)
  with 1(5) u0 show ?thesis
    unfolding st' by simp
qed

text \<open>
  A record completed at time 7 and then marked failed still carries \<open>completedAt = 7\<close>.
\<close>

theorem update_keeps_completedAt:
  "fst (updateRecordStatus sampleStore 9 ''d1'' ''a'' 0 Failed None)
     = Updated (taskWith Failed (Some 7))
   \<and> completedAt (taskWith Failed (Some 7)) \<noteq> None"
  by (simp add: updateRecordStatus_def sampleStore_def Let_def sampleGroup_def taskWith_def
        pre_save_def)

subsection \<open>The stored summary\<close>








subsection \<open>Weighted distribution at equal weights\<close>

lemma weights_twoNewAgents:
  "calculateAgentWeights twoNewAgents =
     [\<lparr>w_agentId = ''a'', w_weight = 7 / 10, performance = 7 / 10, workloadFactor = 1\<rparr>,
      \<lparr>w_agentId = ''b'', w_weight = 7 / 10, performance = 7 / 10, workloadFactor = 1\<rparr>]"
  by (simp add: calculateAgentWeights_def twoNewAgents_def weighAgent_def Let_def
        calculateAgentPerformance_def calculateWorkloadFactor_def)

lemma find_twoNewAgents:
  "find (\<lambda>a. uid a = ''a'') twoNewAgents = Some (sampleAgent ''a'' True 0 0)"
  "find (\<lambda>a. uid a = ''b'') twoNewAgents = Some (sampleAgent ''b'' True 0 0)"
  by (simp_all add: twoNewAgents_def)

text \<open>
  Claim C1, where the code departs from it. One record, two active agents without
  history, strategy \<open>weighted\<close>: both weights are 0.7, both shares are 0.5 rounded up to
  1, and the second slice is taken past the end of the list. Both groups report
  \<open>assignedCount = 1\<close>, the counts add up to 2 for one record, and the second group's
  count is not the length of its (empty) record list.
\<close>

theorem weighted_counts_exceed_records:
  "distribute (Some [sampleTask]) (Some twoNewAgents) ''weighted'' 0 0 =
     Inr (Plan \<lparr>agents =
                  [\<lparr>agentId = ''a'', agentName = ''agent a'', agentEmail = ''a@example.com'',
                    assignedCount = 1, weight = Some (7 / 10),
                    records = [assignPending 0 sampleTask]\<rparr>,
                   \<lparr>agentId = ''b'', agentName = ''agent b'', agentEmail = ''b@example.com'',
                    assignedCount = 1, weight = Some (7 / 10), records = []\<rparr>],
                summary = Some \<lparr>totalAgentsAssigned = 2, averageRecordsPerAgent = 1 / 2,
                                distributionTime = 0, totalRecordsDistributed = 1,
                                minRecordsAssigned = 1, maxRecordsAssigned = 1,
                                distributionVariance = 0, fairnessScore = 1\<rparr>,
                strategy = ''weighted'', elapsedTime = 0\<rparr>)"
proof -
  have act: "filter isActive twoNewAgents = twoNewAgents" "twoNewAgents \<noteq> []"
    by (simp_all add: twoNewAgents_def)
  have w: "weightedDistribution [sampleTask] twoNewAgents 0 =
     Inr [\<lparr>agentId = ''a'', agentName = ''agent a'', agentEmail = ''a@example.com'',
           assignedCount = 1, weight = Some (7 / 10),
           records = [assignPending 0 sampleTask]\<rparr>,
          \<lparr>agentId = ''b'', agentName = ''agent b'', agentEmail = ''b@example.com'',
           assignedCount = 1, weight = Some (7 / 10), records = []\<rparr>]"
    by (simp add: weightedDistribution_def weights_twoNewAgents find_twoNewAgents Let_def
          Math_round_def slice_def sampleAgent_def)
  have s: "strategies ''weighted'' = Some WeightedMethod"
    by (simp add: strategies_def)
  have f: "calculateFairnessScore [Suc 0, Suc 0] = Some 1"
    by (simp add: calculateFairnessScore_def Let_def)
  show ?thesis
    by (simp add: distribute_def act w s Let_def generateSummary_def f Math_round_def)
qed

text \<open>
  Claim C3, where the code departs from it. Three records, two agents of equal weight:
  each share is 1.5 rounded to 2; the first agent takes two records from the front, and
  the second, whose share is 2 as well, receives the one record that is left.
\<close>

theorem weighted_share_not_received:
  "Math_round (real (length [taskNamed ''r1'', taskNamed ''r2'', taskNamed ''r3''])
                 * ((7 / 10) / (7 / 10 + 7 / 10))) = 2
   \<and> weightedDistribution [taskNamed ''r1'', taskNamed ''r2'', taskNamed ''r3''] twoNewAgents 0 =
     Inr [\<lparr>agentId = ''a'', agentName = ''agent a'', agentEmail = ''a@example.com'',
           assignedCount = 2, weight = Some (7 / 10),
           records = [assignPending 0 (taskNamed ''r1''), assignPending 0 (taskNamed ''r2'')]\<rparr>,
          \<lparr>agentId = ''b'', agentName = ''agent b'', agentEmail = ''b@example.com'',
           assignedCount = 2, weight = Some (7 / 10),
           records = [assignPending 0 (taskNamed ''r3'')]\<rparr>]"
  by (simp add: weightedDistribution_def weights_twoNewAgents find_twoNewAgents Let_def
        Math_round_def slice_def sampleAgent_def)

subsection \<open>Strategy names found in the prototype\<close>

text \<open>
  Claim C5, where the code departs from it. With one record and one active agent, the
  strategy names \<open>__proto__\<close> and \<open>toString\<close> are not recognised strategies, yet the call
  raises a \<open>TypeError\<close> instead of falling back to \<open>equal\<close>; the name \<open>constructor\<close>
  raises nothing and returns the records undistributed.
\<close>

theorem inherited_strategy_names:
  "distribute (Some [sampleTask]) (Some [sampleAgent ''a'' True 0 0]) ''__proto__'' 0 0
     = Inl TypeError
   \<and> distribute (Some [sampleTask]) (Some [sampleAgent ''a'' True 0 0]) ''toString'' 0 0
     = Inl TypeError
   \<and> distribute (Some [sampleTask]) (Some [sampleAgent ''a'' True 0 0]) ''constructor'' 0 0
     = Inr (RecordsAsAgents [sampleTask])"
  by (simp add: distribute_def strategies_def objectPrototypeMembers_def)

subsection \<open>Round-robin loops\<close>

lemma priorityLoop_roundRobin: "priorityLoop now gs i rs = roundRobin (pushRecord now) gs i rs"
  by (induction rs arbitrary: gs i) simp_all

lemma redistributeLoop_roundRobin: "redistributeLoop now ws i ts = roundRobin (pushTask now) ws i ts"
  by (induction ts arbitrary: ws i) simp_all

lemma roundRobin_turns:
  "i < length gs \<Longrightarrow>
   \<exists>gs'. roundRobin f gs i xs = Inr gs' \<and> length gs' = length gs
     \<and> (\<forall>j<length gs. gs' ! j = foldl f (gs ! j) (turns (length gs) i j xs))"
proof (induction xs arbitrary: gs i)
  case Nil
  then show ?case by simp
next
  case (Cons x xs)
  let ?gs = "gs[i := f (gs ! i) x]"
  let ?i = "(i + 1) mod length gs"
  from Cons.prems have "0 < length gs" by (cases gs) simp_all
  then have "?i < length ?gs" by simp
  from Cons.IH[OF this] obtain gs' where
    gs': "roundRobin f ?gs ?i xs = Inr gs'" "length gs' = length gs"
    "\<forall>j<length gs. gs' ! j = foldl f (?gs ! j) (turns (length gs) ?i j xs)"
    by auto
  have "gs' ! j = foldl f (gs ! j) (turns (length gs) i j (x # xs))" if "j < length gs" for j
    using gs'(3) that Cons.prems by (cases "i = j") (simp_all add: nth_list_update)
  with gs'(1,2) Cons.prems show ?case by simp
qed

lemma turns_nth:
  "i < m \<Longrightarrow> j < m \<Longrightarrow>
   turns m i j xs = map ((!) xs) (filter (\<lambda>k. (i + k) mod m = j) [0..<length xs])"
proof (induction xs arbitrary: i)
  case Nil
  then show ?case by simp
next
  case (Cons x xs)
  have m: "0 < m" using Cons.prems by simp
  then have i': "(i + 1) mod m < m" by simp
  have shift: "(Suc i mod m + k) mod m = Suc (i + k) mod m" for k
    using mod_add_left_eq[of "Suc i" m k] by simp
  have up: "[0..<length (x # xs)] = 0 # map Suc [0..<length xs]"
    by (simp add: upt_conv_Cons map_Suc_upt del: upt_Suc)
  have "map ((!) (x # xs)) (filter (\<lambda>k. (i + k) mod m = j) [0..<length (x # xs)])
        = (if i = j then [x] else [])
          @ map ((!) xs) (filter (\<lambda>k. (i + Suc k) mod m = j) [0..<length xs])"
    unfolding up using Cons.prems by (simp add: filter_map comp_def)
  also have "\<dots> = (if i = j then [x] else []) @ turns m ((i + 1) mod m) j xs"
    using Cons.IH[OF i' Cons.prems(2)] by (simp add: shift)
  finally show ?case by simp
qed



lemma foldl_pushRecord:
  "foldl (pushRecord now) g xs =
     g\<lparr>records := records g @ map (assignPending now) xs,
       assignedCount := assignedCount g + length xs\<rparr>"
  by (induction xs arbitrary: g) (simp_all add: pushRecord_def)

lemma foldl_pushTask:
  "foldl (pushTask now) (g, l) xs =
     (g\<lparr>records := records g @ map (redistributedTask now) xs,
        assignedCount := assignedCount g + length xs\<rparr>, l + length xs)"
  by (induction xs arbitrary: g l) (simp_all add: pushTask_def)

subsection \<open>Priority distribution\<close>

lemma strategies_priority: "strategies ''priority'' = Some PriorityMethod"
  by (simp add: strategies_def)

lemma distribute_priority:
  assumes "recs \<noteq> []" and "filter isActive ags \<noteq> []"
  shows "distribute (Some recs) (Some ags) ''priority'' now elapsed =
           (case priorityDistribution recs (filter isActive ags) now of
              Inl e \<Rightarrow> Inl e
            | Inr gs \<Rightarrow> Inr (Plan \<lparr>agents = gs,
                      summary = generateSummary gs (length recs) elapsed,
                      strategy = ''priority'', elapsedTime = elapsed\<rparr>))"
proof -
  from assms(2) have "ags \<noteq> []" by auto
  with assms show ?thesis
    by (simp add: distribute_def Let_def strategies_priority)
qed

lemma priorityDistribution_groups:
  assumes "ags \<noteq> []"
  shows "\<exists>gs. priorityDistribution recs ags now = Inr gs \<and> length gs = length ags
     \<and> (\<forall>j<length ags.
           gs ! j = (emptyGroup (sort_key (\<lambda>a. - calculateAgentPerformance a) ags ! j))
             \<lparr>records := map (assignPending now)
                  (turns (length ags) 0 j (sort_key (\<lambda>r. - int (complexity r)) recs)),
              assignedCount := length
                  (turns (length ags) 0 j (sort_key (\<lambda>r. - int (complexity r)) recs))\<rparr>)"
proof -
  let ?sa = "sort_key (\<lambda>a. - calculateAgentPerformance a) ags"
  let ?sr = "sort_key (\<lambda>r. - int (complexity r)) recs"
  from assms have "0 < length (map emptyGroup ?sa)" by simp
  from roundRobin_turns[OF this, of "pushRecord now" ?sr] obtain gs where
    gs: "roundRobin (pushRecord now) (map emptyGroup ?sa) 0 ?sr = Inr gs"
      "length gs = length ags"
      "\<forall>j<length ags. gs ! j = foldl (pushRecord now) (map emptyGroup ?sa ! j)
                                   (turns (length ags) 0 j ?sr)"
    by auto
  have "gs ! j = (emptyGroup (?sa ! j))
             \<lparr>records := map (assignPending now) (turns (length ags) 0 j ?sr),
              assignedCount := length (turns (length ags) 0 j ?sr)\<rparr>" if "j < length ags" for j
    using gs(3) that by (simp add: foldl_pushRecord emptyGroup_def)
  with gs(1,2) show ?thesis
    by (simp add: priorityDistribution_def Let_def priorityLoop_roundRobin)
qed






subsection \<open>Redistribution\<close>

lemma insort_key_map:
  "insort_key f (h x) (map h xs) = map h (insort_key (\<lambda>a. f (h a)) x xs)"
  by (induction xs) simp_all

lemma sort_key_map:
  "sort_key f (map h xs) = map h (sort_key (\<lambda>a. f (h a)) xs)"
  by (induction xs) (simp_all add: insort_key_map)

lemma agentWorkloads_sorted:
  "sort_key snd (map (\<lambda>g. (g, currentLoad g)) gs)
     = map (\<lambda>g. (g, currentLoad g)) (sort_key currentLoad gs)"
  by (simp add: sort_key_map)

lemma redistributedTask_marks:
  "status (redistributedTask now t) = Some Pending"
  "assignedAt (redistributedTask now t) = Some now"
  "redistributed (redistributedTask now t)"
  by (simp_all add: redistributedTask_def)

text \<open>
  Claim C9, as the code has it. For a non-empty list of failed records and a distribution
  with at least one group: the groups are put in ascending order of their live load (the
  number of their records that are pending or in progress), groups of equal load in
  their original order; the failed record at position \<open>k\<close> goes to the group at position
  \<open>k mod m\<close> of that order, marked pending, assigned now and redistributed; each group's
  \<open>assignedCount\<close> grows by the number of records it receives, so it is the length of the
  new record list wherever it was the length of the old one. The result carries the
  groups in the sorted order and is otherwise the distribution that was passed in.
\<close>

theorem redistribute_round_robin:
  assumes "ts \<noteq> []" and "agents d \<noteq> []"
  shows "let ws = sort_key currentLoad (agents d); m = length ws in
     mset ws = mset (agents d)
     \<and> sorted (map currentLoad ws)
     \<and> (\<forall>l. filter (\<lambda>g. currentLoad g = l) ws = filter (\<lambda>g. currentLoad g = l) (agents d))
     \<and> (\<exists>d'. redistributeTasks (Some ts) now d = Inr d'
           \<and> assignment.more d' = assignment.more d
           \<and> length (agents d') = m
           \<and> (\<forall>j<m. agents d' ! j =
                 (ws ! j)\<lparr>records := records (ws ! j)
                            @ map (\<lambda>k. redistributedTask now (ts ! k))
                                (filter (\<lambda>k. k mod m = j) [0..<length ts]),
                         assignedCount := assignedCount (ws ! j)
                            + length (filter (\<lambda>k. k mod m = j) [0..<length ts])\<rparr>)
           \<and> (\<forall>j<m. assignedCount (ws ! j) = length (records (ws ! j))
                 \<longrightarrow> assignedCount (agents d' ! j) = length (records (agents d' ! j))))
     \<and> (\<forall>t. status (redistributedTask now t) = Some Pending
            \<and> assignedAt (redistributedTask now t) = Some now
            \<and> redistributed (redistributedTask now t))"
proof -
  let ?ws = "sort_key currentLoad (agents d)"
  let ?m = "length ?ws"
  let ?pairs = "map (\<lambda>g. (g, currentLoad g)) ?ws"
  have m: "0 < ?m" using assms(2) by simp
  then have "0 < length ?pairs" by simp
  from roundRobin_turns[OF this, of "pushTask now" ts] obtain ps where
    ps: "roundRobin (pushTask now) ?pairs 0 ts = Inr ps" "length ps = ?m"
      "\<forall>j<?m. ps ! j = foldl (pushTask now) (?pairs ! j) (turns ?m 0 j ts)"
    by auto
  let ?d' = "d\<lparr>agents := map fst ps\<rparr>"
  have res: "redistributeTasks (Some ts) now d = Inr ?d'"
    using assms(1) ps(1)
    by (simp add: redistributeTasks_def Let_def agentWorkloads_sorted redistributeLoop_roundRobin)
  have each: "agents ?d' ! j =
        (?ws ! j)\<lparr>records := records (?ws ! j)
                    @ map (\<lambda>k. redistributedTask now (ts ! k))
                        (filter (\<lambda>k. k mod ?m = j) [0..<length ts]),
                 assignedCount := assignedCount (?ws ! j)
                    + length (filter (\<lambda>k. k mod ?m = j) [0..<length ts])\<rparr>"
    if "j < ?m" for j
    using ps(2,3) that turns_nth[OF m that, of ts]
    by (simp add: foldl_pushTask comp_def)
  have inv: "assignedCount (agents ?d' ! j) = length (records (agents ?d' ! j))"
    if "j < ?m" "assignedCount (?ws ! j) = length (records (?ws ! j))" for j
    unfolding each[OF that(1)] using that(2) by simp
  have s1: "mset ?ws = mset (agents d)" by simp
  have s2: "sorted (map currentLoad ?ws)" by (rule sorted_sort_key)
  have s3: "\<forall>l. filter (\<lambda>g. currentLoad g = l) ?ws = filter (\<lambda>g. currentLoad g = l) (agents d)"
    by (simp add: sort_key_stable)
  have r1: "assignment.more ?d' = assignment.more d" by simp
  have r2: "length (agents ?d') = ?m" by (simp add: ps(2))
  have r3: "\<forall>j<?m. agents ?d' ! j =
        (?ws ! j)\<lparr>records := records (?ws ! j)
                    @ map (\<lambda>k. redistributedTask now (ts ! k))
                        (filter (\<lambda>k. k mod ?m = j) [0..<length ts]),
                 assignedCount := assignedCount (?ws ! j)
                    + length (filter (\<lambda>k. k mod ?m = j) [0..<length ts])\<rparr>"
    using each by blast
  have r4: "\<forall>j<?m. assignedCount (?ws ! j) = length (records (?ws ! j))
                 \<longrightarrow> assignedCount (agents ?d' ! j) = length (records (agents ?d' ! j))"
    using inv by blast
  have marks: "\<forall>t. status (redistributedTask now t) = Some Pending
            \<and> assignedAt (redistributedTask now t) = Some now
            \<and> redistributed (redistributedTask now t)"
    by (simp add: redistributedTask_marks)
  have ex: "\<exists>d'. redistributeTasks (Some ts) now d = Inr d'
           \<and> assignment.more d' = assignment.more d
           \<and> length (agents d') = ?m
           \<and> (\<forall>j<?m. agents d' ! j =
                 (?ws ! j)\<lparr>records := records (?ws ! j)
                            @ map (\<lambda>k. redistributedTask now (ts ! k))
                                (filter (\<lambda>k. k mod ?m = j) [0..<length ts]),
                         assignedCount := assignedCount (?ws ! j)
                            + length (filter (\<lambda>k. k mod ?m = j) [0..<length ts])\<rparr>)
           \<and> (\<forall>j<?m. assignedCount (?ws ! j) = length (records (?ws ! j))
                 \<longrightarrow> assignedCount (agents d' ! j) = length (records (agents d' ! j)))"
    by (rule exI[of _ ?d']) (intro conjI res r1 r2 r3 r4)
  show ?thesis
    unfolding Let_def by (intro conjI s1 s2 s3 ex marks)
qed


lemma replicate_numeral_Cons:
  "replicate (numeral k) x = x # replicate (pred_numeral k) x"
  by (simp add: numeral_eq_Suc)

lemma loads_loadedGroups: "map currentLoad loadedGroups = [5, 1, 3]"
  by (simp add: loadedGroups_def currentLoad_def sampleGroup_def pendingTasks_def taskWith_def)

lemma redistribute_sample:
  "map (\<lambda>g. (agentId g, assignedCount g, map firstName (records g)))
     (case redistributeTasks (Some failedTasks) 9 \<lparr>agents = loadedGroups\<rparr> of
        Inr d' \<Rightarrow> agents d' | Inl e \<Rightarrow> [])
   = [(''b'', 3, [''b'', ''Asha'', ''f1'']),
      (''c'', 4, [''c'', ''c'', ''c'', ''f2'']),
      (''a'', 5, [''a'', ''a'', ''a'', ''a'', ''a''])]"
  by (simp add: redistributeTasks_def Let_def loadedGroups_def currentLoad_def sampleGroup_def
        pendingTasks_def taskWith_def failedTasks_def pushTask_def redistributedTask_def
        sampleTask_def replicate_numeral_Cons)

text \<open>
  Three groups with live loads 5, 1, 3 and two failed records: the first goes to the
  group of load 1, the second to the group of load 3.
\<close>

theorem redistribute_round_robin_witness:
  "map currentLoad loadedGroups = [5, 1, 3]
   \<and> (\<exists>d'. redistributeTasks (Some failedTasks) 9 \<lparr>agents = loadedGroups\<rparr> = Inr d'
         \<and> map (\<lambda>g. (agentId g, assignedCount g, map firstName (records g))) (agents d')
             = [(''b'', 3, [''b'', ''Asha'', ''f1'']),
                (''c'', 4, [''c'', ''c'', ''c'', ''f2'']),
                (''a'', 5, [''a'', ''a'', ''a'', ''a'', ''a''])]
         \<and> assignedCount (agents d' ! 0) = length (records (agents d' ! 0)))"
proof -
  let ?d = "\<lparr>agents = loadedGroups\<rparr>"
  have h1: "failedTasks \<noteq> []" by (simp add: failedTasks_def)
  have h2: "agents ?d \<noteq> []" by (simp add: loadedGroups_def)
  have ws: "sort_key currentLoad (agents ?d) =
      [sampleGroup ''b'' 2 (pendingTasks ''b'' Pending 1 @ [taskWith Completed (Some 3)]),
       sampleGroup ''c'' 3 (pendingTasks ''c'' InProgress 3),
       sampleGroup ''a'' 5 (pendingTasks ''a'' Pending 5)]"
    by (simp add: loadedGroups_def currentLoad_def sampleGroup_def pendingTasks_def taskWith_def)
  from redistribute_round_robin[OF h1 h2, of 9, unfolded Let_def ws] obtain d' where
    d': "redistributeTasks (Some failedTasks) 9 ?d = Inr d'"
    and inv: "\<forall>j<3. assignedCount
          ([sampleGroup ''b'' 2 (pendingTasks ''b'' Pending 1 @ [taskWith Completed (Some 3)]),
            sampleGroup ''c'' 3 (pendingTasks ''c'' InProgress 3),
            sampleGroup ''a'' 5 (pendingTasks ''a'' Pending 5)] ! j)
        = length (records
          ([sampleGroup ''b'' 2 (pendingTasks ''b'' Pending 1 @ [taskWith Completed (Some 3)]),
            sampleGroup ''c'' 3 (pendingTasks ''c'' InProgress 3),
            sampleGroup ''a'' 5 (pendingTasks ''a'' Pending 5)] ! j))
        \<longrightarrow> assignedCount (agents d' ! j) = length (records (agents d' ! j))"
    by auto
  from inv have i0: "assignedCount (agents d' ! 0) = length (records (agents d' ! 0))"
    by (simp add: sampleGroup_def pendingTasks_def)
  from redistribute_sample d' have
    "map (\<lambda>g. (agentId g, assignedCount g, map firstName (records g))) (agents d')
             = [(''b'', 3, [''b'', ''Asha'', ''f1'']),
                (''c'', 4, [''c'', ''c'', ''c'', ''f2'']),
                (''a'', 5, [''a'', ''a'', ''a'', ''a'', ''a''])]"
    by simp
  with d' i0 loads_loadedGroups show ?thesis by (intro conjI exI[of _ d'])
qed

text \<open>
  The groups the weighted strategy returns for one record and two new agents report the
  counts 1 and 1 over record lists of lengths 1 and 0. One failed record goes to the
  second group, whose count becomes 2 over a record list of length 1. With no group at
  all the call raises.
\<close>

theorem redistribute_count_not_rederived:
  "weightedDistribution [sampleTask] twoNewAgents 0 = Inr overcountedGroups
   \<and> redistributeTasks (Some [taskWith Failed None]) 9 \<lparr>agents = overcountedGroups\<rparr>
       = Inr \<lparr>agents =
               [\<lparr>agentId = ''b'', agentName = ''agent b'', agentEmail = ''b@example.com'',
                 assignedCount = 2, weight = Some (7 / 10),
                 records = [redistributedTask 9 (taskWith Failed None)]\<rparr>,
                \<lparr>agentId = ''a'', agentName = ''agent a'', agentEmail = ''a@example.com'',
                 assignedCount = 1, weight = Some (7 / 10),
                 records = [assignPending 0 sampleTask]\<rparr>]\<rparr>
   \<and> redistributeTasks (Some [taskWith Failed None]) 9 \<lparr>agents = []\<rparr> = Inl TypeError"
  by (simp add: weightedDistribution_def weights_twoNewAgents find_twoNewAgents Let_def
        Math_round_def slice_def sampleAgent_def overcountedGroups_def redistributeTasks_def
        currentLoad_def assignPending_def pushTask_def)

subsection \<open>Weighted distribution always returns\<close>

lemma weighAgent_id: "w_agentId (weighAgent a) = uid a"
  by (simp add: weighAgent_def Let_def)


lemma set_calculateAgentWeights: "set (calculateAgentWeights ags) = weighAgent ` set ags"
  by (simp add: calculateAgentWeights_def)

lemma length_calculateAgentWeights: "length (calculateAgentWeights ags) = length ags"
  by (simp add: calculateAgentWeights_def)

lemma weightedLoop_ok:
  assumes "\<forall>w\<in>set ws. \<exists>a\<in>set ags. uid a = w_agentId w"
  shows "\<exists>gs. weightedLoop recs ags now tw idx ws
                = Inr (gs, idx + sum_list (map assignedCount gs))
              \<and> length gs = length ws"
  using assms
proof (induction ws arbitrary: idx)
  case Nil
  then show ?case by simp
next
  case (Cons w ws)
  from Cons.prems have "\<exists>a\<in>set ags. uid a = w_agentId w" by simp
  then have "find (\<lambda>a. uid a = w_agentId w) ags \<noteq> None"
    by (auto simp: find_None_iff)
  then obtain a where a: "find (\<lambda>a. uid a = w_agentId w) ags = Some a" by blast
  define c where "c = nat (Math_round (real (length recs) * (w_weight w / tw)))"
  from Cons.prems have "\<forall>w\<in>set ws. \<exists>a\<in>set ags. uid a = w_agentId w" by simp
  from Cons.IH[OF this, of "idx + c"] obtain gs where
    gs: "weightedLoop recs ags now tw (idx + c) ws
           = Inr (gs, idx + c + sum_list (map assignedCount gs))" "length gs = length ws"
    by blast
  have step: "weightedLoop recs ags now tw idx (w # ws) =
      (case weightedLoop recs ags now tw (idx + c) ws of
         Inl e \<Rightarrow> Inl e
       | Inr (gs, finalIndex) \<Rightarrow>
           Inr (\<lparr>agentId = uid a, agentName = name a, agentEmail = email a,
                 assignedCount = c, weight = Some (w_weight w),
                 records = map (assignPending now) (slice recs idx (idx + c))\<rparr> # gs,
                finalIndex))"
    unfolding c_def by (simp only: weightedLoop.simps a option.case Let_def)
  show ?case
    unfolding step by (simp add: gs add.assoc)
qed

lemma weightedDistribution_ok:
  assumes "ags \<noteq> []"
  shows "\<exists>gs. weightedDistribution recs ags now = Inr gs \<and> length gs = length ags
              \<and> length recs \<le> sum_list (map assignedCount gs)"
proof -
  let ?ws = "calculateAgentWeights ags"
  let ?tw = "sum_list (map w_weight ?ws)"
  have "\<forall>w\<in>set ?ws. \<exists>a\<in>set ags. uid a = w_agentId w"
    by (auto simp: set_calculateAgentWeights weighAgent_id)
  from weightedLoop_ok[OF this, of recs now ?tw 0] obtain gs where
    gs: "weightedLoop recs ags now ?tw 0 ?ws = Inr (gs, sum_list (map assignedCount gs))"
      "length gs = length ags"
    by (auto simp: length_calculateAgentWeights)
  from gs(2) assms obtain top others where top: "gs = top # others"
    by (cases gs) auto
  show ?thesis
  proof (cases "sum_list (map assignedCount gs) < length recs")
    case True
    then show ?thesis
      using gs top by (simp add: weightedDistribution_def Let_def)
  next
    case False
    then show ?thesis
      using gs by (simp add: weightedDistribution_def Let_def)
  qed
qed

lemma strategies_weighted: "strategies ''weighted'' = Some WeightedMethod"
  by (simp add: strategies_def)

lemma distribute_weighted:
  assumes "recs \<noteq> []" and "filter isActive ags \<noteq> []"
  shows "distribute (Some recs) (Some ags) ''weighted'' now elapsed =
           (case weightedDistribution recs (filter isActive ags) now of
              Inl e \<Rightarrow> Inl e
            | Inr gs \<Rightarrow> Inr (Plan \<lparr>agents = gs,
                      summary = generateSummary gs (length recs) elapsed,
                      strategy = ''weighted'', elapsedTime = elapsed\<rparr>))"
proof -
  from assms(2) have "ags \<noteq> []" by auto
  with assms show ?thesis
    by (simp add: distribute_def Let_def strategies_weighted)
qed

subsection \<open>Every strategy returns groups that hold records\<close>


subsection \<open>The summary\<close>













subsection \<open>When distribute raises\<close>

lemma priorityDistribution_ok:
  "ags \<noteq> [] \<Longrightarrow> \<exists>gs. priorityDistribution recs ags now = Inr gs"
  using priorityDistribution_groups[of ags recs now] by blast

text \<open>
  For a strategy name that is not one of the eleven inherited members that raise, the
  call raises exactly when the records are missing or empty, the agents are missing or
  empty, or no agent is active.
\<close>

lemma distribute_error_iff:
  assumes "strategies s \<noteq> Some ObjectPrototypeMember"
  shows "(\<exists>e. distribute recordsArg agentsArg s now elapsed = Inl e) \<longleftrightarrow>
         (recordsArg = None \<or> recordsArg = Some [] \<or> agentsArg = None \<or> agentsArg = Some []
          \<or> (\<exists>ags. agentsArg = Some ags \<and> filter isActive ags = []))"
proof (cases recordsArg)
  case None
  then show ?thesis by (simp add: distribute_def)
next
  case (Some recs)
  note R = this
  show ?thesis
  proof (cases "recs = []")
    case True
    with R show ?thesis by (simp add: distribute_def)
  next
    case False
    note recs = this
    show ?thesis
    proof (cases agentsArg)
      case None
      with R recs show ?thesis by (simp add: distribute_def)
    next
      case (Some ags)
      note A = this
      show ?thesis
      proof (cases "filter isActive ags = []")
        case True
        with R recs A show ?thesis by (auto simp: distribute_def Let_def)
      next
        case False
        then have ags: "ags \<noteq> []" by auto
        from weightedDistribution_ok[OF False, of recs now] obtain gw where
          gw: "weightedDistribution recs (filter isActive ags) now = Inr gw" by blast
        from priorityDistribution_ok[OF False, of recs now] obtain gp where
          gp: "priorityDistribution recs (filter isActive ags) now = Inr gp" by blast
        have "\<not> (\<exists>e. distribute recordsArg agentsArg s now elapsed = Inl e)"
          using assms R recs A False ags gw gp
          by (cases "strategies s"; cases "the (strategies s)")
             (simp_all add: distribute_def Let_def)
        with R recs A False ags show ?thesis by simp
      qed
    qed
  qed
qed

text \<open>A name found neither in the object nor in its prototype is served as \<open>equal\<close>.\<close>

lemma distribute_fallback:
  assumes "strategies s = None" and "recs \<noteq> []" and "filter isActive ags \<noteq> []"
  shows "distribute (Some recs) (Some ags) s now elapsed =
           Inr (Plan \<lparr>agents = equalDistribution recs (filter isActive ags) now,
                      summary = generateSummary (equalDistribution recs (filter isActive ags) now)
                                  (length recs) elapsed,
                      strategy = s, elapsedTime = elapsed\<rparr>)"
proof -
  from assms(3) have "ags \<noteq> []" by auto
  with assms show ?thesis
    by (simp add: distribute_def Let_def)
qed

lemma strategies_unknown: "strategies ''fastest'' = None"
  by (simp add: strategies_def objectPrototypeMembers_def)

subsection \<open>No record is lost or duplicated\<close>

lemma slice_append:
  "a \<le> b \<Longrightarrow> b \<le> c \<Longrightarrow> slice xs a b @ slice xs b c = slice xs a c"
proof -
  assume "a \<le> b" "b \<le> c"
  then have "c - a = (b - a) + (c - b)" by simp
  then have "take (c - a) (drop a xs)
           = take (b - a) (drop a xs) @ take (c - b) (drop (b - a) (drop a xs))"
    by (simp only: take_add)
  with \<open>a \<le> b\<close> show ?thesis by (simp add: slice_def)
qed

lemma slice_all: "length xs \<le> c \<Longrightarrow> slice xs 0 c = xs"
  by (simp add: slice_def)

lemma slice_drop: "slice xs 0 c @ drop c xs = xs"
  by (simp add: slice_def)

lemma equalLoop_concat:
  "concat (map records (equalLoop recs now n r i idx ags))
     = map (assignPending now)
         (slice recs idx (idx + sum_list (map assignedCount (equalLoop recs now n r i idx ags))))"
proof (induction ags arbitrary: i idx)
  case Nil
  then show ?case by (simp add: slice_def)
next
  case (Cons a ags)
  define c where "c = n + (if i < r then 1 else 0)"
  define rest where "rest = equalLoop recs now n r (i + 1) (idx + c) ags"
  have step: "equalLoop recs now n r i idx (a # ags) =
      \<lparr>agentId = uid a, agentName = name a, agentEmail = email a, assignedCount = c,
       weight = None, records = map (assignPending now) (slice recs idx (idx + c))\<rparr> # rest"
    by (simp add: Let_def c_def rest_def)
  define S where "S = sum_list (map assignedCount rest)"
  have ih: "concat (map records rest)
            = map (assignPending now) (slice recs (idx + c) (idx + c + S))"
    unfolding rest_def S_def by (rule Cons.IH)
  have app: "slice recs idx (idx + c) @ slice recs (idx + c) (idx + c + S)
             = slice recs idx (idx + c + S)"
    by (rule slice_append) simp_all
  have "concat (map records (equalLoop recs now n r i idx (a # ags)))
        = map (assignPending now) (slice recs idx (idx + c))
          @ map (assignPending now) (slice recs (idx + c) (idx + c + S))"
    unfolding step by (simp add: ih)
  also have "\<dots> = map (assignPending now)
                      (slice recs idx (idx + c) @ slice recs (idx + c) (idx + c + S))"
    by simp
  also have "\<dots> = map (assignPending now) (slice recs idx (idx + c + S))"
    by (simp only: app)
  also have "idx + c + S = idx + sum_list (map assignedCount (equalLoop recs now n r i idx (a # ags)))"
    unfolding step by (simp add: S_def)
  finally show ?case .
qed

lemma equalDistribution_counts:
  assumes "ags \<noteq> []"
  shows "sum_list (map assignedCount (equalDistribution recs ags now)) = length recs"
proof -
  let ?m = "length ags"
  let ?n = "length recs div ?m"
  let ?r = "length recs mod ?m"
  have loop: "equalStart n r i + sum_list (map assignedCount (equalLoop recs now n r i idx xs))
              = equalStart n r (i + length xs)" for n r i idx and xs :: "agent list"
  proof (induction xs arbitrary: i idx)
    case Nil
    then show ?case by simp
  next
    case (Cons a xs)
    show ?case
      using Cons.IH[of "Suc i"]
      by (simp add: Let_def equalStart_Suc equalShare_def)
  qed
  from assms have "?r < ?m" by simp
  then have "equalStart ?n ?r ?m = length recs"
    by (simp add: equalStart_def min_def)
  with loop[of ?n ?r 0 0 ags] show ?thesis
    by (simp add: equalDistribution_def Let_def equalStart_def)
qed

lemma equalDistribution_concat:
  assumes "ags \<noteq> []"
  shows "concat (map records (equalDistribution recs ags now)) = map (assignPending now) recs"
proof -
  have "concat (map records (equalDistribution recs ags now))
      = map (assignPending now)
          (slice recs 0 (sum_list (map assignedCount (equalDistribution recs ags now))))"
    using equalLoop_concat[of recs now _ _ 0 0 ags]
    by (simp add: equalDistribution_def Let_def)
  then show ?thesis
    by (simp add: equalDistribution_counts[OF assms] slice_all)
qed

lemma weightedLoop_concat:
  "weightedLoop recs ags now tw idx ws = Inr (gs, idx') \<Longrightarrow>
   idx \<le> idx' \<and> concat (map records gs) = map (assignPending now) (slice recs idx idx')"
proof (induction ws arbitrary: idx gs)
  case Nil
  then show ?case by (simp add: slice_def)
next
  case (Cons w ws)
  define c where "c = nat (Math_round (real (length recs) * (w_weight w / tw)))"
  from Cons.prems obtain a where a: "find (\<lambda>a. uid a = w_agentId w) ags = Some a"
    by (cases "find (\<lambda>a. uid a = w_agentId w) ags") simp_all
  have step: "weightedLoop recs ags now tw idx (w # ws) =
      (case weightedLoop recs ags now tw (idx + c) ws of
         Inl e \<Rightarrow> Inl e
       | Inr (gs, finalIndex) \<Rightarrow>
           Inr (\<lparr>agentId = uid a, agentName = name a, agentEmail = email a,
                 assignedCount = c, weight = Some (w_weight w),
                 records = map (assignPending now) (slice recs idx (idx + c))\<rparr> # gs,
                finalIndex))"
    unfolding c_def by (simp only: weightedLoop.simps a option.case Let_def)
  from Cons.prems[unfolded step] obtain rest where
    rest: "weightedLoop recs ags now tw (idx + c) ws = Inr (rest, idx')"
    and gs: "gs = \<lparr>agentId = uid a, agentName = name a, agentEmail = email a,
                 assignedCount = c, weight = Some (w_weight w),
                 records = map (assignPending now) (slice recs idx (idx + c))\<rparr> # rest"
    by (auto split: sum.splits)
  from Cons.IH[OF rest] have le: "idx + c \<le> idx'"
    and cc: "concat (map records rest) = map (assignPending now) (slice recs (idx + c) idx')"
    by simp_all
  have "slice recs idx (idx + c) @ slice recs (idx + c) idx' = slice recs idx idx'"
    by (rule slice_append) (use le in simp_all)
  with le show ?case
    by (simp add: gs cc flip: map_append)
qed

lemma weightedDistribution_mset:
  assumes "weightedDistribution recs ags now = Inr gs"
  shows "mset (concat (map records gs)) = mset (map (assignPending now) recs)"
proof -
  let ?ws = "calculateAgentWeights ags"
  let ?tw = "sum_list (map w_weight ?ws)"
  from assms obtain gs0 idx where
    loop: "weightedLoop recs ags now ?tw 0 ?ws = Inr (gs0, idx)"
    by (cases "weightedLoop recs ags now ?tw 0 ?ws")
       (auto simp: weightedDistribution_def Let_def)
  from weightedLoop_concat[OF loop] have
    cc: "concat (map records gs0) = map (assignPending now) (slice recs 0 idx)" by simp
  show ?thesis
  proof (cases "idx < length recs")
    case True
    with assms loop obtain top others where
      top: "gs0 = top # others"
      and gs: "gs = top\<lparr>records := records top @ map (assignPending now) (drop idx recs),
                        assignedCount := assignedCount top + length (drop idx recs)\<rparr> # others"
      by (cases gs0) (auto simp: weightedDistribution_def Let_def)
    from cc top have "mset (records top) + mset (concat (map records others))
        = mset (map (assignPending now) (slice recs 0 idx))"
      by (metis concat.simps(2) list.simps(9) mset_append)
    then have "mset (concat (map records gs))
        = mset (map (assignPending now) (slice recs 0 idx))
          + mset (map (assignPending now) (drop idx recs))"
      by (simp add: gs)
    also have "\<dots> = mset (map (assignPending now) (slice recs 0 idx @ drop idx recs))"
      by simp
    finally show ?thesis by (simp only: slice_drop)
  next
    case False
    with assms loop have "gs = gs0"
      by (simp add: weightedDistribution_def Let_def)
    with cc False show ?thesis by (simp add: slice_all)
  qed
qed

subsection \<open>Round-robin and equal slices lose nothing\<close>

lemma turns_map: "turns m i j (map f xs) = map f (turns m i j xs)"
  by (induction xs arbitrary: i) simp_all

lemma single_slot:
  "(\<Sum>j\<leftarrow>[0..<m]. if i = j then {#x#} else {#}) = (if i < m then {#x#} else {#})"
  by (induction m) auto

lemma turns_mset:
  "i < m \<Longrightarrow> (\<Sum>j\<leftarrow>[0..<m]. mset (turns m i j xs)) = mset xs"
proof (induction xs arbitrary: i)
  case Nil
  then show ?case by (induction m) simp_all
next
  case (Cons x xs)
  then have i': "(i + 1) mod m < m" by simp
  have "(\<Sum>j\<leftarrow>[0..<m]. mset (turns m i j (x # xs)))
      = (\<Sum>j\<leftarrow>[0..<m]. (if i = j then {#x#} else {#}) + mset (turns m ((i + 1) mod m) j xs))"
    by (intro arg_cong[where f = sum_list] map_cong) auto
  also have "\<dots> = (\<Sum>j\<leftarrow>[0..<m]. if i = j then {#x#} else {#})
                  + (\<Sum>j\<leftarrow>[0..<m]. mset (turns m ((i + 1) mod m) j xs))"
    by (rule sum_list_addf)
  also have "\<dots> = {#x#} + mset xs"
    using Cons.prems by (simp only: single_slot Cons.IH[OF i'] if_True)
  finally show ?case by simp
qed

lemma priorityDistribution_mset:
  assumes "ags \<noteq> []" and "priorityDistribution recs ags now = Inr gs"
  shows "mset (concat (map records gs)) = mset (map (assignPending now) recs)"
    and "\<forall>g\<in>set gs. assignedCount g = length (records g)"
proof -
  let ?sr = "sort_key (\<lambda>r. - int (complexity r)) recs"
  let ?m = "length ags"
  from priorityDistribution_groups[OF assms(1), of recs now] assms(2) have
    len: "length gs = ?m"
    and nth: "\<forall>j<?m. records (gs ! j) = map (assignPending now) (turns ?m 0 j ?sr)
                   \<and> assignedCount (gs ! j) = length (turns ?m 0 j ?sr)"
    by auto
  have m: "0 < ?m" using assms(1) by simp
  have "map records gs = map records (map ((!) gs) [0..<length gs])"
    by (simp only: map_nth)
  also have "\<dots> = map (\<lambda>j. records (gs ! j)) [0..<?m]"
    by (simp add: len)
  also have "\<dots> = map (\<lambda>j. turns ?m 0 j (map (assignPending now) ?sr)) [0..<?m]"
  proof (rule map_cong[OF refl])
    fix j assume "j \<in> set [0..<?m]"
    then have "j < ?m" by simp
    with nth have "records (gs ! j) = map (assignPending now) (turns ?m 0 j ?sr)" by blast
    then show "records (gs ! j) = turns ?m 0 j (map (assignPending now) ?sr)"
      by (simp only: turns_map)
  qed
  finally have "mset (concat (map records gs))
      = (\<Sum>j\<leftarrow>[0..<?m]. mset (turns ?m 0 j (map (assignPending now) ?sr)))"
    by (simp add: mset_concat comp_def)
  also have "\<dots> = mset (map (assignPending now) ?sr)"
    by (rule turns_mset[OF m])
  finally show "mset (concat (map records gs)) = mset (map (assignPending now) recs)"
    by simp
  show "\<forall>g\<in>set gs. assignedCount g = length (records g)"
    using len nth by (auto simp: in_set_conv_nth)
qed

lemma equalDistribution_count_is_length:
  assumes "ags \<noteq> []"
  shows "\<forall>g\<in>set (equalDistribution recs ags now). assignedCount g = length (records g)"
proof -
  let ?m = "length ags"
  let ?n = "length recs div ?m"
  let ?r = "length recs mod ?m"
  from assms have "?r < ?m" by simp
  then have total: "equalStart ?n ?r ?m = length recs"
    by (simp add: equalStart_def min_def)
  have "assignedCount (equalDistribution recs ags now ! k)
        = length (records (equalDistribution recs ags now ! k))" if "k < ?m" for k
  proof -
    from that have "equalStart ?n ?r (Suc k) \<le> equalStart ?n ?r ?m"
      by (intro equalStart_mono) simp
    then have "equalStart ?n ?r k + equalShare ?n ?r k \<le> length recs"
      by (simp add: equalStart_Suc total)
    then show ?thesis
      by (simp add: equalDistribution_nth[OF that] slice_def)
  qed
  then show ?thesis
    by (auto simp: in_set_conv_nth equalDistribution_length)
qed

text \<open>
  Whatever the strategy, no record is lost or duplicated: the records of the groups,
  taken together, are the input records, each once, marked pending and assigned now.
  Under \<open>equal\<close> and \<open>priority\<close> every count is the length of the group's record list and
  the counts add up to the number of records.
\<close>

lemma distribute_partition:
  assumes "recs \<noteq> []" and "filter isActive ags \<noteq> []"
    and "s = ''equal'' \<or> s = ''weighted'' \<or> s = ''priority''"
    and "distribute (Some recs) (Some ags) s now elapsed = Inr (Plan p)"
  shows "mset (concat (map records (agents p))) = mset (map (assignPending now) recs)"
    and "s \<noteq> ''weighted'' \<Longrightarrow> \<forall>g\<in>set (agents p). assignedCount g = length (records g)"
    and "s \<noteq> ''weighted'' \<Longrightarrow> sum_list (map assignedCount (agents p)) = length recs"
proof -
  let ?act = "filter isActive ags"
  have part: "mset (concat (map records (agents p))) = mset (map (assignPending now) recs)
      \<and> (s \<noteq> ''weighted'' \<longrightarrow> (\<forall>g\<in>set (agents p). assignedCount g = length (records g)))"
  proof -
    from assms(3) consider "s = ''equal''" | "s = ''weighted''" | "s = ''priority''" by blast
    then show ?thesis
    proof cases
      case 1
      with assms(4) have "agents p = equalDistribution recs ?act now"
        by (auto simp: distribute_equal[OF assms(1,2)])
      then show ?thesis
        using equalDistribution_concat[OF assms(2), of recs now]
          equalDistribution_count_is_length[OF assms(2), of recs now] by simp
    next
      case 2
      with assms(4) have "weightedDistribution recs ?act now = Inr (agents p)"
        by (auto simp: distribute_weighted[OF assms(1,2)] split: sum.splits)
      from weightedDistribution_mset[OF this] 2 show ?thesis by simp
    next
      case 3
      with assms(4) have "priorityDistribution recs ?act now = Inr (agents p)"
        by (auto simp: distribute_priority[OF assms(1,2)] split: sum.splits)
      from priorityDistribution_mset[OF assms(2) this] show ?thesis by simp
    qed
  qed
  then show "mset (concat (map records (agents p))) = mset (map (assignPending now) recs)"
    by simp
  assume nw: "s \<noteq> ''weighted''"
  with part show inv: "\<forall>g\<in>set (agents p). assignedCount g = length (records g)" by simp
  then have eq: "map assignedCount (agents p) = map (length \<circ> records) (agents p)" by simp
  have "sum_list (map assignedCount (agents p)) = sum_list (map (length \<circ> records) (agents p))"
    by (simp only: eq)
  also have "\<dots> = length (concat (map records (agents p)))"
    by (simp add: length_concat comp_def)
  also have "\<dots> = size (mset (concat (map records (agents p))))" by simp
  also have "\<dots> = length recs" using part by simp
  finally show "sum_list (map assignedCount (agents p)) = length recs" .
qed

subsection \<open>What the weighted strategy computes\<close>

lemma weight_formula:
  "w_weight (weighAgent a) = max (1 / 10) (calculateAgentPerformance a * calculateWorkloadFactor a)"
  "calculateAgentPerformance a =
     (if assignedTasks a = 0 then 7 / 10
      else 7 / 10 * (real_of_int (completedTasks a) / real_of_int (assignedTasks a))
           + 3 / 10 * min 1 (real_of_int (assignedTasks a) / 100))"
  "calculateWorkloadFactor a =
     (if assignedTasks a - completedTasks a \<le> 0 then 1
      else if 50 \<le> assignedTasks a - completedTasks a then 1 / 10
      else max (1 / 10) (1 - real_of_int (assignedTasks a - completedTasks a) / 50))"
  by (simp_all add: weighAgent_def calculateAgentPerformance_def calculateWorkloadFactor_def
        Let_def)

lemma weights_descending:
  "sorted_wrt (\<lambda>v w. w_weight w \<le> w_weight v) (calculateAgentWeights ags)"
  "mset (calculateAgentWeights ags) = mset (map weighAgent ags)"
  "filter (\<lambda>w. w_weight w = x) (calculateAgentWeights ags)
     = filter (\<lambda>w. w_weight w = x) (map weighAgent ags)"
proof -
  show "sorted_wrt (\<lambda>v w. w_weight w \<le> w_weight v) (calculateAgentWeights ags)"
    using sorted_sort_key[of "\<lambda>w. - w_weight w" "map weighAgent ags"]
    by (simp add: calculateAgentWeights_def sorted_map)
  show "mset (calculateAgentWeights ags) = mset (map weighAgent ags)"
    by (simp add: calculateAgentWeights_def)
  show "filter (\<lambda>w. w_weight w = x) (calculateAgentWeights ags)
     = filter (\<lambda>w. w_weight w = x) (map weighAgent ags)"
    using sort_key_stable[of "\<lambda>w. - w_weight w" "- x" "map weighAgent ags"]
    by (simp add: calculateAgentWeights_def)
qed

lemma weightedLoop_nth:
  assumes "weightedLoop recs ags now tw idx ws = Inr (gs, idx')" and "j < length ws"
  shows "agentId (gs ! j) = w_agentId (ws ! j)
       \<and> weight (gs ! j) = Some (w_weight (ws ! j))
       \<and> assignedCount (gs ! j) = weightedShare (length recs) tw (ws ! j)
       \<and> records (gs ! j) =
           map (assignPending now)
             (slice recs (idx + sum_list (map (weightedShare (length recs) tw) (take j ws)))
                (idx + sum_list (map (weightedShare (length recs) tw) (take j ws))
                 + weightedShare (length recs) tw (ws ! j)))"
  using assms
proof (induction ws arbitrary: idx gs j)
  case Nil
  then show ?case by simp
next
  case (Cons w ws)
  define c where "c = weightedShare (length recs) tw w"
  from Cons.prems(1) obtain a where a: "find (\<lambda>a. uid a = w_agentId w) ags = Some a"
    by (cases "find (\<lambda>a. uid a = w_agentId w) ags") simp_all
  then have ua: "uid a = w_agentId w"
    by (auto simp: find_Some_iff)
  have step: "weightedLoop recs ags now tw idx (w # ws) =
      (case weightedLoop recs ags now tw (idx + c) ws of
         Inl e \<Rightarrow> Inl e
       | Inr (gs, finalIndex) \<Rightarrow>
           Inr (\<lparr>agentId = uid a, agentName = name a, agentEmail = email a,
                 assignedCount = c, weight = Some (w_weight w),
                 records = map (assignPending now) (slice recs idx (idx + c))\<rparr> # gs,
                finalIndex))"
    unfolding c_def weightedShare_def by (simp only: weightedLoop.simps a option.case Let_def)
  from Cons.prems(1)[unfolded step] obtain rest where
    rest: "weightedLoop recs ags now tw (idx + c) ws = Inr (rest, idx')"
    and gs: "gs = \<lparr>agentId = uid a, agentName = name a, agentEmail = email a,
                 assignedCount = c, weight = Some (w_weight w),
                 records = map (assignPending now) (slice recs idx (idx + c))\<rparr> # rest"
    by (auto split: sum.splits)
  show ?case
  proof (cases j)
    case 0
    then show ?thesis by (simp add: gs ua c_def)
  next
    case (Suc k)
    with Cons.prems(2) have "k < length ws" by simp
    from Cons.IH[OF rest this] Suc show ?thesis
      by (simp add: gs c_def add.assoc)
  qed
qed

text \<open>
  The weighted strategy, for at least one agent: the groups follow the weights in
  descending order; the group at position \<open>j\<close> reports the rounded share of its weight
  and holds the slice that starts after the shares before it, cut at the end of the
  list; when the shares add up to less than the number of records, the first group also
  takes the records that are left and counts them.
\<close>

lemma weightedDistribution_shares:
  assumes "ags \<noteq> []"
  shows "\<exists>gs. weightedDistribution recs ags now = Inr gs
     \<and> (let ws = calculateAgentWeights ags;
             tw = sum_list (map w_weight ws);
             share = weightedShare (length recs) tw;
             start = (\<lambda>j. sum_list (map share (take j ws)));
             left = (\<lambda>j. if j = 0 \<and> sum_list (map share ws) < length recs
                          then drop (sum_list (map share ws)) recs else [])
         in length gs = length ws
          \<and> (\<forall>j<length ws.
                agentId (gs ! j) = w_agentId (ws ! j)
              \<and> weight (gs ! j) = Some (w_weight (ws ! j))
              \<and> assignedCount (gs ! j) = share (ws ! j) + length (left j)
              \<and> records (gs ! j) =
                  map (assignPending now) (slice recs (start j) (start j + share (ws ! j)) @ left j)))"
proof -
  let ?ws = "calculateAgentWeights ags"
  let ?tw = "sum_list (map w_weight ?ws)"
  let ?share = "weightedShare (length recs) ?tw"
  have "\<forall>w\<in>set ?ws. \<exists>a\<in>set ags. uid a = w_agentId w"
    by (auto simp: set_calculateAgentWeights weighAgent_id)
  from weightedLoop_ok[OF this, of recs now ?tw 0] obtain gs0 where
    loop: "weightedLoop recs ags now ?tw 0 ?ws = Inr (gs0, sum_list (map assignedCount gs0))"
    and len: "length gs0 = length ?ws"
    by auto
  note nth = weightedLoop_nth[OF loop]
  have "map assignedCount gs0 = map ?share ?ws"
    using len nth by (intro nth_equalityI) simp_all
  then have total: "sum_list (map assignedCount gs0) = sum_list (map ?share ?ws)" by simp
  from len assms obtain top others where top: "gs0 = top # others"
    by (cases gs0) (auto simp: length_calculateAgentWeights)
  show ?thesis
  proof (cases "sum_list (map ?share ?ws) < length recs")
    case True
    let ?gs = "top\<lparr>records := records top
                   @ map (assignPending now) (drop (sum_list (map ?share ?ws)) recs),
                  assignedCount := assignedCount top
                   + length (drop (sum_list (map ?share ?ws)) recs)\<rparr> # others"
    have res: "weightedDistribution recs ags now = Inr ?gs"
      using loop True top total by (simp add: weightedDistribution_def Let_def)
    have "agentId (?gs ! j) = w_agentId (?ws ! j)
              \<and> weight (?gs ! j) = Some (w_weight (?ws ! j))
              \<and> assignedCount (?gs ! j) = ?share (?ws ! j)
                   + length (if j = 0 \<and> sum_list (map ?share ?ws) < length recs
                          then drop (sum_list (map ?share ?ws)) recs else [])
              \<and> records (?gs ! j) =
                  map (assignPending now)
                    (slice recs (sum_list (map ?share (take j ?ws)))
                       (sum_list (map ?share (take j ?ws)) + ?share (?ws ! j))
                     @ (if j = 0 \<and> sum_list (map ?share ?ws) < length recs
                          then drop (sum_list (map ?share ?ws)) recs else []))"
      if "j < length ?ws" for j
      using nth[OF that] True top by (cases j) simp_all
    with res len top show ?thesis
      unfolding Let_def by (intro exI[of _ ?gs]) simp
  next
    case False
    have res: "weightedDistribution recs ags now = Inr gs0"
      using loop False total by (simp add: weightedDistribution_def Let_def)
    have "agentId (gs0 ! j) = w_agentId (?ws ! j)
              \<and> weight (gs0 ! j) = Some (w_weight (?ws ! j))
              \<and> assignedCount (gs0 ! j) = ?share (?ws ! j)
                   + length (if j = 0 \<and> sum_list (map ?share ?ws) < length recs
                          then drop (sum_list (map ?share ?ws)) recs else [])
              \<and> records (gs0 ! j) =
                  map (assignPending now)
                    (slice recs (sum_list (map ?share (take j ?ws)))
                       (sum_list (map ?share (take j ?ws)) + ?share (?ws ! j))
                     @ (if j = 0 \<and> sum_list (map ?share ?ws) < length recs
                          then drop (sum_list (map ?share ?ws)) recs else []))"
      if "j < length ?ws" for j
      using nth[OF that] False by simp
    with res len show ?thesis
      unfolding Let_def by (intro exI[of _ gs0]) simp
  qed
qed

end
